theory Spec2Isabelle
  imports Main "HOL-Library.Sublist"
begin

section \<open>JavaScript strings and arrays\<close>

text \<open>
  Strings are \<open>string\<close>; the operations below are the \<open>String.prototype\<close> and
  \<open>Array.prototype\<close> methods that \<open>src/js/shared/jcr.js\<close> calls, with the
  behaviour the language gives them.
\<close>

text \<open>\<open>s.split(sep)\<close> for a one-character separator: never the empty array.\<close>

fun js_split :: "char \<Rightarrow> string \<Rightarrow> string list" where
  "js_split sep [] = [[]]"
| "js_split sep (c # cs) =
     (if c = sep then [] # js_split sep cs
      else (case js_split sep cs of [] \<Rightarrow> [[c]] | t # ts \<Rightarrow> (c # t) # ts))"

text \<open>\<open>tokens.join(sep)\<close>.\<close>

fun js_join :: "string \<Rightarrow> string list \<Rightarrow> string" where
  "js_join sep [] = []"
| "js_join sep [t] = t"
| "js_join sep (t # u # ts) = t @ sep @ js_join sep (u # ts)"

text \<open>\<open>tokens.splice(i, 1, x)\<close>: one element removed at \<open>i\<close> (if there is one), \<open>x\<close> put there.\<close>

definition js_splice1 :: "nat \<Rightarrow> 'a \<Rightarrow> 'a list \<Rightarrow> 'a list" where
  "js_splice1 i x xs = take i xs @ x # drop (Suc i) xs"

text \<open>\<open>s.replace(pat, rep)\<close> with a string pattern: the first occurrence only.\<close>

fun js_replace :: "string \<Rightarrow> string \<Rightarrow> string \<Rightarrow> string" where
  "js_replace pat rep [] = (if pat = [] then rep else [])"
| "js_replace pat rep (c # cs) =
     (if prefix pat (c # cs) then rep @ drop (length pat) (c # cs)
      else c # js_replace pat rep cs)"

text \<open>\<open>xs[i]\<close>: \<open>undefined\<close> out of range.\<close>

definition js_index :: "'a list \<Rightarrow> nat \<Rightarrow> 'a option" where
  "js_index xs i = (if i < length xs then Some (xs ! i) else None)"

text \<open>\<open>xs.pop()\<close> as a value: the last element, \<open>undefined\<close> on the empty array.\<close>

definition js_pop :: "'a list \<Rightarrow> 'a option" where
  "js_pop xs = (if xs = [] then None else Some (last xs))"

text \<open>
  A value that is a string or \<open>undefined\<close> is a \<open>string option\<close>. A template literal
  prints \<open>undefined\<close> as the word; \<open>join\<close> prints it as the empty string; a test
  \<open>if (x)\<close> takes \<open>undefined\<close> and the empty string as false.
\<close>

definition js_template :: "string option \<Rightarrow> string" where
  "js_template v = (case v of None \<Rightarrow> ''undefined'' | Some s \<Rightarrow> s)"

definition js_join_elem :: "string option \<Rightarrow> string" where
  "js_join_elem v = (case v of None \<Rightarrow> [] | Some s \<Rightarrow> s)"

definition js_truthy :: "string option \<Rightarrow> bool" where
  "js_truthy v = (case v of None \<Rightarrow> False | Some s \<Rightarrow> s \<noteq> [])"

text \<open>\<open>s.lastIndexOf(c)\<close>, \<open>None\<close> for \<open>-1\<close>.\<close>

fun js_lastIndexOf :: "char \<Rightarrow> string \<Rightarrow> nat option" where
  "js_lastIndexOf c [] = None"
| "js_lastIndexOf c (d # ds) =
     (case js_lastIndexOf c ds of
        Some i \<Rightarrow> Some (Suc i)
      | None \<Rightarrow> if d = c then Some 0 else None)"

section \<open>The platform\<close>

datatype error = TypeError

text \<open>
  A \<open>URL\<close> object, with the fields the code reads. \<open>searchParams\<close> is the list of
  key/value pairs in the URL's order: \<open>keys()\<close> iterates all of them, \<open>get(key)\<close>
  returns the first value of the key.
\<close>

record url =
  href :: string
  origin :: string
  pathname :: string
  searchParams :: "(string \<times> string) list"

text \<open>What \<open>fetch\<close> does with a request: a response, or a rejection with an error.\<close>

record response =
  ok :: bool
  status :: nat
  body :: string
  contentType :: "string option"

datatype fetched = Response response | Rejected string

text \<open>
  A parsed XML document: its root element. An element has its namespace URI, local
  name and qualified name, its attributes in order and its child elements.
\<close>

datatype xml =
  Element (namespaceURI: string) (localName: string) (tagName: string)
    (attributes: "(string \<times> string) list") (children: "xml list")

text \<open>
  The browser functions the code calls are parameters: \<open>new URL(s)\<close> (\<open>None\<close> where it
  throws), \<open>fetch\<close>, \<open>DOMParser.parseFromString\<close>, \<open>XMLSerializer.serializeToString\<close>
  and \<open>new Date().toISOString()\<close>.
\<close>

record platform =
  newURL :: "string \<Rightarrow> url option"
  fetch :: "string \<Rightarrow> fetched"
  parseFromString :: "string \<Rightarrow> xml"
  serializeToString :: "xml \<Rightarrow> string"
  now :: string

section \<open>Path mapper\<close>

definition CUSTOM_SITE_NAME :: "string option" where
  "CUSTOM_SITE_NAME = None"

definition ADD_ASSET_TO_PACKAGE :: bool where
  "ADD_ASSET_TO_PACKAGE = True"

definition getSiteName :: "platform \<Rightarrow> string \<Rightarrow> error + string option" where
  "getSiteName P projectUrl =
     (if js_truthy CUSTOM_SITE_NAME then Inr CUSTOM_SITE_NAME
      else case newURL P projectUrl of
             None \<Rightarrow> Inl TypeError
           | Some u \<Rightarrow> Inr (js_index (js_split CHR ''/'' (pathname u)) 2))"

definition getJcrPagePath :: "platform \<Rightarrow> string \<Rightarrow> string \<Rightarrow> error + string" where
  "getJcrPagePath P path projectUrl =
     (case getSiteName P projectUrl of
        Inl e \<Rightarrow> Inl e
      | Inr siteName \<Rightarrow>
          if prefix ''/content/'' path
          then Inr (js_join ''/''
                 (js_splice1 2 (js_join_elem siteName) (js_split CHR ''/'' path)))
          else Inr (''/content/'' @ js_template siteName @ path))"

text \<open>The three local constants of \<open>getJcrAssetPath\<close>: \<open>extension\<close>, \<open>path\<close>, \<open>suffix\<close>.\<close>

definition getJcrAssetPath_extension :: "string \<Rightarrow> string" where
  "getJcrAssetPath_extension pathname' =
     (if CHR ''.'' \<in> set pathname'
      then CHR ''.'' # js_template (js_pop (js_split CHR ''.'' pathname'))
      else [])"

definition getJcrAssetPath_path :: "string \<Rightarrow> string" where
  "getJcrAssetPath_path pathname' =
     js_replace (getJcrAssetPath_extension pathname') [] pathname'"

definition getJcrAssetPath_suffix :: "(string \<times> string) list \<Rightarrow> string" where
  "getJcrAssetPath_suffix params =
     concat (map (\<lambda>key. ''_'' @ key @
                    (case map_of params key of None \<Rightarrow> ''null'' | Some v \<Rightarrow> v))
                 (map fst params))"

definition getJcrAssetPath :: "platform \<Rightarrow> url \<Rightarrow> string \<Rightarrow> error + string" where
  "getJcrAssetPath P assetUrl projectUrl =
     (case getSiteName P projectUrl of
        Inl e \<Rightarrow> Inl e
      | Inr siteName \<Rightarrow>
          let params = searchParams assetUrl;
              extension = getJcrAssetPath_extension (pathname assetUrl);
              path = getJcrAssetPath_path (pathname assetUrl)
          in if prefix ''/content/dam/'' path
             then Inr (js_join ''/''
                    (js_splice1 3 (js_join_elem siteName) (js_split CHR ''/'' path))
                    @ extension)
             else Inr (''/content/dam/'' @ js_template siteName @ path
                    @ getJcrAssetPath_suffix params @ extension))"

definition getMimeTypeFromExtension :: "string \<Rightarrow> string option" where
  "getMimeTypeFromExtension extension =
     map_of
       [(''html'', ''text/html''),
        (''css'', ''text/css''),
        (''js'', ''application/javascript''),
        (''png'', ''image/png''),
        (''jpg'', ''image/jpeg''),
        (''gif'', ''image/gif'')] extension"

section \<open>Asset resolver\<close>

record asset =
  fileReference :: string
  processedFileRef :: string
  jcrPath :: "string option"
  url :: "url option"
  add :: bool
  blob :: "string option"
  mimeType :: "string option"

text \<open>
  \<open>getAsset\<close> returns \<open>null\<close> (here \<open>None\<close>) for a missing or empty reference. Its
  argument is a \<open>string option\<close>, \<open>None\<close> for \<open>undefined\<close> or \<open>null\<close>. The fields
  \<open>blob\<close> and \<open>mimeType\<close> are absent until \<open>fetchAssetData\<close> sets them.
\<close>

text \<open>
  \<open>resolved\<close> is the three statements each resolving branch of \<open>getAsset\<close> repeats:
  \<open>jcrPath = getJcrAssetPath(url, projectUrl); processedFileRef = jcrPath; add = ...\<close>.
\<close>

definition resolved :: "platform \<Rightarrow> string \<Rightarrow> url \<Rightarrow> string \<Rightarrow> bool \<Rightarrow> error + asset option" where
  "resolved P fileReference' url' projectUrl add' =
     (case getJcrAssetPath P url' projectUrl of
        Inl e \<Rightarrow> Inl e
      | Inr jcrPath' \<Rightarrow>
          Inr (Some \<lparr>fileReference = fileReference', processedFileRef = jcrPath',
                 jcrPath = Some jcrPath', url = Some url', add = add',
                 blob = None, mimeType = None\<rparr>))"

definition getAsset :: "platform \<Rightarrow> string option \<Rightarrow> string \<Rightarrow> string \<Rightarrow> error + asset option" where
  "getAsset P fileReference' pageUrl projectUrl =
     (case fileReference' of
        None \<Rightarrow> Inr None
      | Some ref \<Rightarrow>
          if ref = [] then Inr None
          else
           (case newURL P pageUrl of
              None \<Rightarrow> Inl TypeError
            | Some page \<Rightarrow>
              let host = origin page; pagePath = pathname page in
              if prefix ''http'' ref then
                (case newURL P ref of
                   None \<Rightarrow> Inl TypeError
                 | Some u \<Rightarrow>
                     if origin u = host then resolved P ref u projectUrl True
                     else Inr (Some \<lparr>fileReference = ref, processedFileRef = ref,
                            jcrPath = None, url = Some u, add = False,
                            blob = None, mimeType = None\<rparr>))
              else if prefix ''/content/dam/'' ref then
                (case newURL P (host @ ref) of
                   None \<Rightarrow> Inl TypeError
                 | Some u \<Rightarrow> resolved P ref u projectUrl ADD_ASSET_TO_PACKAGE)
              else if prefix ''/'' ref then
                (case newURL P (host @ ref) of
                   None \<Rightarrow> Inl TypeError
                 | Some u \<Rightarrow> resolved P ref u projectUrl True)
              else if prefix ''./'' ref then
                (let parentPath =
                       (case js_lastIndexOf CHR ''/'' pagePath of
                          None \<Rightarrow> []
                        | Some i \<Rightarrow> take i pagePath)
                 in (case newURL P (host @ parentPath @ drop 1 ref) of
                       None \<Rightarrow> Inl TypeError
                     | Some u \<Rightarrow> resolved P ref u projectUrl True))
              else Inr (Some \<lparr>fileReference = ref, processedFileRef = ref,
                     jcrPath = None, url = None, add = False,
                     blob = None, mimeType = None\<rparr>)))"

definition getProcessedFileRef :: "platform \<Rightarrow> string option \<Rightarrow> string \<Rightarrow> string \<Rightarrow> error + string" where
  "getProcessedFileRef P fileReference' pageUrl projectUrl =
     (case getAsset P fileReference' pageUrl projectUrl of
        Inl e \<Rightarrow> Inl e
      | Inr None \<Rightarrow> Inl TypeError
      | Inr (Some a) \<Rightarrow> Inr (processedFileRef a))"

section \<open>State and effects\<close>

text \<open>
  What is written to the archive or to the directory: markup, or the bytes of an asset
  (\<open>None\<close> when \<open>asset.blob\<close> is \<open>null\<close>).
\<close>

datatype content = Text string | Binary "string option"

type_synonym zip = "(string \<times> content) list"

text \<open>
  The effects of the module on the world, in the order they happen: a call of the XML
  parser, a \<open>fetch\<close>, a \<open>console.error\<close>, a \<open>saveFile\<close> and the final
  \<open>saveFile\<close> of the generated archive.
\<close>

datatype event =
    Parse string
  | Fetch string
  | ConsoleError string
  | SaveFile string string content
  | SaveArchive string string zip

record page =
  path :: string
  data :: string
  url :: string

text \<open>
  What \<open>addPage\<close> writes has \<open>jcrPath\<close>, \<open>contentXmlPath\<close> and \<open>processedXml\<close>; an
  ancestor page has nothing else, a resolved page has five more fields.
\<close>

record page_node =
  jcrPath :: string
  contentXmlPath :: string
  processedXml :: string

record jcr_page = page_node +
  path :: string
  sourceXml :: string
  pageProperties :: "string list"
  pageContentChildren :: "string list"
  url :: string

text \<open>
  The module variable \<open>jcrPages\<close> holds an array, or (between the assignment in
  \<open>getJcrPages\<close> and the caller's \<open>jcrPages = await ...\<close>) the promise of one, settled
  with the array or with the error that rejected it. A promise has no \<open>length\<close>.
\<close>

datatype pages_cache = Array "jcr_page list" | Promise "error + jcr_page list"

record state =
  jcrPages :: pages_cache
  jcrAssets :: "asset list"
  trace :: "event list"

type_synonym 'a action = "state \<Rightarrow> (error + 'a) \<times> state"

definition andThen :: "'a action \<Rightarrow> ('a \<Rightarrow> 'b action) \<Rightarrow> 'b action" where
  "andThen m f s = (case m s of (Inl e, s') \<Rightarrow> (Inl e, s') | (Inr a, s') \<Rightarrow> f a s')"

definition return :: "'a \<Rightarrow> 'a action" where
  "return a s = (Inr a, s)"

definition throw :: "error \<Rightarrow> 'a action" where
  "throw e s = (Inl e, s)"

definition lift :: "error + 'a \<Rightarrow> 'a action" where
  "lift r s = (r, s)"

definition emit :: "event \<Rightarrow> unit action" where
  "emit ev s = (Inr (), s\<lparr>trace := trace s @ [ev]\<rparr>)"

fun forEach :: "('a \<Rightarrow> unit action) \<Rightarrow> 'a list \<Rightarrow> unit action" where
  "forEach f [] = return ()"
| "forEach f (x # xs) = andThen (f x) (\<lambda>_. forEach f xs)"

fun mapM :: "('a \<Rightarrow> 'b action) \<Rightarrow> 'a list \<Rightarrow> 'b list action" where
  "mapM f [] = return []"
| "mapM f (x # xs) = andThen (f x) (\<lambda>y. andThen (mapM f xs) (\<lambda>ys. return (y # ys)))"

text \<open>A loop that carries a local value (the archive) from one iteration to the next.\<close>

fun foldM :: "('a \<Rightarrow> 'b \<Rightarrow> 'b action) \<Rightarrow> 'a list \<Rightarrow> 'b \<Rightarrow> 'b action" where
  "foldM f [] z = return z"
| "foldM f (x # xs) z = andThen (f x z) (foldM f xs)"

definition init :: "state \<Rightarrow> state" where
  "init s = s\<lparr>jcrPages := Array [], jcrAssets := []\<rparr>"

definition setJcrPages :: "jcr_page list \<Rightarrow> unit action" where
  "setJcrPages ps s = (Inr (), s\<lparr>jcrPages := Array ps\<rparr>)"

text \<open>\<open>zip.file(name, data)\<close>: the entry of that name is replaced, or a new one added.\<close>

fun zip_file :: "string \<Rightarrow> content \<Rightarrow> zip \<Rightarrow> zip" where
  "zip_file name c [] = [(name, c)]"
| "zip_file name c ((n, d) # es) =
     (if n = name then (n, c) # es else (n, d) # zip_file name c es)"

text \<open>
  Modelled from the spec: \<open>saveFile\<close> of \<open>./filesystem.js\<close>, the persistent-storage
  writer (``takes a directory handle, relative path, and content, writes to disk'').
  It is an effect in the trace and raises nothing.
\<close>

definition saveFile :: "string \<Rightarrow> string \<Rightarrow> content \<Rightarrow> unit action" where
  "saveFile dirHandle path' c = emit (SaveFile dirHandle path' c)"

definition nl :: string where
  "nl = [CHR 0x0A]"

definition getPackageName :: "platform \<Rightarrow> page list \<Rightarrow> string \<Rightarrow> error + string option" where
  "getPackageName P pages projectUrl =
     (case getSiteName P projectUrl of
        Inl e \<Rightarrow> Inl e
      | Inr siteName \<Rightarrow>
          (case pages of
             [p] \<Rightarrow>
               let pageName = js_pop (js_split CHR ''/'' (page.path p))
               in Inr (Some (js_template siteName @ ''_'' @ js_template pageName))
           | _ \<Rightarrow> Inr siteName))"

definition getAssetXml :: "string option \<Rightarrow> string" where
  \<open>getAssetXml mimeType' = js_join nl
       [''<?xml version="1.0" encoding="UTF-8"?>'',
        ''    <jcr:root xmlns:jcr="http://www.jcp.org/jcr/1.0" xmlns:dam="http://www.day.com/dam/1.0" xmlns:tiff="http://ns.adobe.com/tiff/1.0/" xmlns:nt="http://www.jcp.org/jcr/nt/1.0" xmlns:mix="http://www.jcp.org/jcr/mix/1.0" xmlns:cq="http://www.day.com/jcr/cq/1.0" xmlns:dc="http://purl.org/dc/elements/1.1/" xmlns:exif="http://ns.adobe.com/exif/1.0/"'',
        ''        jcr:mixinTypes="[mix:referenceable]"'',
        ''        jcr:primaryType="dam:Asset">'',
        ''        <jcr:content'',
        ''            jcr:primaryType="dam:AssetContent">'',
        ''            <metadata'',
        ''                dc:format="'' @ js_template mimeType' @ ''"'',
        ''                jcr:mixinTypes="[cq:Taggable]"'',
        ''                jcr:primaryType="nt:unstructured"/>'',
        ''            <related jcr:primaryType="nt:unstructured"/>'',
        ''        </jcr:content>'',
        ''    </jcr:root>'']\<close>

fun string_of_nat :: "nat \<Rightarrow> string" where
  "string_of_nat n =
     (if n < 10 then [char_of (48 + n)]
      else string_of_nat (n div 10) @ [char_of (48 + n mod 10)])"

declare string_of_nat.simps [simp del]

text \<open>
  \<open>fetchAssetData\<close> sets \<open>blob\<close> and \<open>mimeType\<close> of the asset it is given; the model
  returns the asset with the two fields set. When \<open>fetch\<close> rejects, the \<open>catch\<close>
  handler logs and returns nothing, and destructuring \<open>{ blob, mimeType }\<close> from
  \<open>undefined\<close> throws a \<open>TypeError\<close>. The lookup table is read with the keys it
  declares (keys inherited from \<open>Object.prototype\<close> are not modelled), and reading the
  body of a response is taken to succeed.
\<close>

definition fetchAssetData :: "platform \<Rightarrow> asset \<Rightarrow> asset action" where
  "fetchAssetData P asset' =
     (case asset.url asset' of
        None \<Rightarrow> return asset'
      | Some u \<Rightarrow>
          andThen (emit (Fetch (href u))) (\<lambda>_.
            let fallback = getMimeTypeFromExtension
                             (js_template (js_pop (js_split CHR ''.'' (pathname u))))
            in case fetch P (href u) of
              Response res \<Rightarrow>
                if \<not> ok res then
                  andThen (emit (ConsoleError
                      (''Failed to fetch image: '' @ string_of_nat (status res)))) (\<lambda>_.
                    return (asset'\<lparr>blob := None, mimeType := fallback\<rparr>))
                else
                  return (asset'\<lparr>blob := Some (body res),
                    mimeType := (if js_truthy (contentType res) then contentType res
                                 else fallback)\<rparr>)
            | Rejected err \<Rightarrow>
                andThen (emit (ConsoleError (''Fetch failed with error: '' @ err))) (\<lambda>_.
                  throw TypeError)))"

section \<open>Page transformer\<close>

text \<open>The elements of a document in document order.\<close>

fun elements :: "xml \<Rightarrow> xml list" where
  "elements (Element ns ln tn as cs) = Element ns ln tn as cs # concat (map elements cs)"

definition getElementsByTagNameNS :: "string \<Rightarrow> string \<Rightarrow> xml \<Rightarrow> xml list" where
  "getElementsByTagNameNS ns ln doc =
     filter (\<lambda>e. namespaceURI e = ns \<and> localName e = ln) (elements doc)"

definition hasFileReference :: "(string \<times> string) list \<Rightarrow> bool" where
  "hasFileReference as = (''fileReference'' \<in> set (map fst as))"

text \<open>\<open>doc.querySelectorAll('[fileReference]')\<close>.\<close>

definition querySelectorAll_fileReference :: "xml \<Rightarrow> xml list" where
  "querySelectorAll_fileReference doc =
     filter (\<lambda>e. hasFileReference (attributes e)) (elements doc)"

definition getAttribute :: "string \<Rightarrow> xml \<Rightarrow> string option" where
  "getAttribute name e = map_of (attributes e) name"

fun setAttribute :: "string \<Rightarrow> string \<Rightarrow> (string \<times> string) list \<Rightarrow> (string \<times> string) list" where
  "setAttribute name v [] = [(name, v)]"
| "setAttribute name v ((n, w) # as) =
     (if n = name then (n, v) # as else (n, w) # setAttribute name v as)"

text \<open>
  The loop of \<open>getProcessedJcr\<close> changes the attributes of the elements it selected, which
  are elements of the document. \<open>withImages doc upd\<close> is the document whose selected
  elements, in document order, have the attribute lists \<open>upd\<close>.
\<close>

fun putImages :: "xml \<Rightarrow> (string \<times> string) list list \<Rightarrow> xml \<times> (string \<times> string) list list"
  and putImagesList :: "xml list \<Rightarrow> (string \<times> string) list list \<Rightarrow> xml list \<times> (string \<times> string) list list" where
  "putImages (Element ns ln tn as cs) upd =
     (if hasFileReference as then
        (case upd of
           [] \<Rightarrow> (Element ns ln tn as cs, [])
         | a # rest \<Rightarrow>
             (case putImagesList cs rest of (cs', rest') \<Rightarrow> (Element ns ln tn a cs', rest')))
      else (case putImagesList cs upd of (cs', rest') \<Rightarrow> (Element ns ln tn as cs', rest')))"
| "putImagesList [] upd = ([], upd)"
| "putImagesList (c # cs) upd =
     (case putImages c upd of (c', rest) \<Rightarrow>
        (case putImagesList cs rest of (cs', rest') \<Rightarrow> (c' # cs', rest')))"

definition withImages :: "xml \<Rightarrow> (string \<times> string) list list \<Rightarrow> xml" where
  "withImages doc upd = fst (putImages doc upd)"

text \<open>The body of the loop of \<open>getProcessedJcr\<close>: the attributes the image ends with.\<close>

definition processImage :: "platform \<Rightarrow> string \<Rightarrow> string \<Rightarrow> xml \<Rightarrow> (string \<times> string) list action" where
  "processImage P pageUrl projectUrl img =
     (let fileReference' = getAttribute ''fileReference'' img in
      andThen (lift (getProcessedFileRef P fileReference' pageUrl projectUrl)) (\<lambda>processedFileRef'.
      andThen
        (case fileReference' of
           None \<Rightarrow> throw TypeError
         | Some ref \<Rightarrow>
             if prefix ''http'' ref then
               andThen (lift (getAsset P fileReference' pageUrl projectUrl)) (\<lambda>found.
                 case found of
                   None \<Rightarrow> throw TypeError
                 | Some asset' \<Rightarrow>
                     if \<not> add asset' then
                       andThen (fetchAssetData P asset') (\<lambda>fetched'.
                         case mimeType fetched' of
                           None \<Rightarrow> return (attributes img)
                         | Some m \<Rightarrow>
                             if m \<noteq> []
                             then return (setAttribute ''fileReferenceMimeType'' m (attributes img))
                             else return (attributes img))
                     else return (attributes img))
             else return (attributes img))
        (\<lambda>as. return (setAttribute ''fileReference'' processedFileRef' as))))"

definition getProcessedJcr :: "platform \<Rightarrow> string \<Rightarrow> string \<Rightarrow> string \<Rightarrow> string action" where
  "getProcessedJcr P xml' pageUrl projectUrl =
     andThen (emit (Parse xml')) (\<lambda>_.
       let doc = parseFromString P xml';
           images = querySelectorAll_fileReference doc
       in andThen (mapM (processImage P pageUrl projectUrl) images) (\<lambda>upd.
            return (serializeToString P (withImages doc upd))))"

definition getPageProperties :: "platform \<Rightarrow> string \<Rightarrow> string list action" where
  "getPageProperties P xml' =
     andThen (emit (Parse xml')) (\<lambda>_.
       case js_index (getElementsByTagNameNS ''http://www.jcp.org/jcr/1.0'' ''content''
                        (parseFromString P xml')) 0 of
         None \<Rightarrow> return []
       | Some jcrContent \<Rightarrow> return (map fst (attributes jcrContent)))"

definition getPageContentChildren :: "platform \<Rightarrow> string \<Rightarrow> string list action" where
  "getPageContentChildren P xml' =
     andThen (emit (Parse xml')) (\<lambda>_.
       case js_index (getElementsByTagNameNS ''http://www.jcp.org/jcr/1.0'' ''content''
                        (parseFromString P xml')) 0 of
         None \<Rightarrow> return []
       | Some jcrContent \<Rightarrow> return (map tagName (children jcrContent)))"

section \<open>Cache\<close>

text \<open>
  The callback that \<open>getJcrPages\<close> maps over the input pages. \<open>Promise.all\<close> starts every
  callback before the first of them finishes; the model runs them one after the other,
  which gives the same pages and the same effects for each page.
\<close>

definition resolvePage :: "platform \<Rightarrow> string \<Rightarrow> page \<Rightarrow> jcr_page action" where
  "resolvePage P projectUrl p =
     andThen (getPageProperties P (data p)) (\<lambda>props.
     andThen (getPageContentChildren P (data p)) (\<lambda>kids.
     andThen (getProcessedJcr P (data p) (page.url p) projectUrl) (\<lambda>processed.
     andThen (lift (getJcrPagePath P (page.path p) projectUrl)) (\<lambda>jcrPath'.
       return \<lparr>jcrPath = jcrPath',
               contentXmlPath = ''jcr_root'' @ jcrPath' @ ''/.content.xml'',
               processedXml = processed,
               path = page.path p,
               sourceXml = data p,
               pageProperties = props,
               pageContentChildren = kids,
               url = page.url p\<rparr>))))"

definition getJcrPages :: "platform \<Rightarrow> page list \<Rightarrow> string \<Rightarrow> jcr_page list action" where
  "getJcrPages P pages projectUrl s =
     (case jcrPages s of
        Promise settled \<Rightarrow> (settled, s)
      | Array cached \<Rightarrow>
          if cached = [] then
            (case mapM (resolvePage P projectUrl) pages s of
               (r, s') \<Rightarrow> (r, s'\<lparr>jcrPages := Promise r\<rparr>))
          else (Inr cached, s))"

text \<open>The body of the inner loop of \<open>getJcrAssets\<close>.\<close>

definition collectAsset :: "platform \<Rightarrow> string \<Rightarrow> jcr_page \<Rightarrow> xml \<Rightarrow> unit action" where
  "collectAsset P projectUrl p img =
     andThen (lift (getAsset P (getAttribute ''fileReference'' img) (jcr_page.url p) projectUrl))
       (\<lambda>found s.
          case found of
            None \<Rightarrow> (Inr (), s)
          | Some asset' \<Rightarrow>
              if add asset'
                 \<and> List.find (\<lambda>a. asset.jcrPath a = asset.jcrPath asset') (jcrAssets s) = None
              then (Inr (), s\<lparr>jcrAssets := jcrAssets s @ [asset']\<rparr>)
              else (Inr (), s))"

definition collectAssets :: "platform \<Rightarrow> string \<Rightarrow> jcr_page \<Rightarrow> unit action" where
  "collectAssets P projectUrl p =
     andThen (emit (Parse (sourceXml p))) (\<lambda>_.
       forEach (collectAsset P projectUrl p)
         (querySelectorAll_fileReference (parseFromString P (sourceXml p))))"

definition getJcrAssets :: "platform \<Rightarrow> page list \<Rightarrow> string \<Rightarrow> asset list action" where
  "getJcrAssets P pages projectUrl s =
     (if jcrAssets s = [] then
        andThen (getJcrPages P pages projectUrl) (\<lambda>ps.
        andThen (setJcrPages ps) (\<lambda>_.
        andThen (forEach (collectAssets P projectUrl) ps) (\<lambda>_ s'.
          (Inr (jcrAssets s'), s')))) s
      else (Inr (jcrAssets s), s))"

text \<open>
  \<open>getResourcePaths\<close> reads \<open>add\<close> and \<open>jcrPath\<close> of pages and of assets alike: the two
  fields are given as functions, a missing or empty \<open>jcrPath\<close> being false in a test.
\<close>

definition getResourcePaths :: "('r \<Rightarrow> bool) \<Rightarrow> ('r \<Rightarrow> string option) \<Rightarrow> 'r list \<Rightarrow> bool \<Rightarrow> string list" where
  "getResourcePaths add' jcrPath' resources isAsset =
     concat (map (\<lambda>resource.
        if (isAsset \<and> add' resource \<and> js_truthy (jcrPath' resource))
           \<or> (\<not> isAsset \<and> js_truthy (jcrPath' resource))
        then (case jcrPath' resource of None \<Rightarrow> [] | Some p \<Rightarrow> [p])
        else []) resources)"

definition pagePaths :: "jcr_page list \<Rightarrow> string list" where
  "pagePaths ps = getResourcePaths (\<lambda>_. False) (\<lambda>p. Some (page_node.jcrPath p)) ps False"

definition assetPaths :: "asset list \<Rightarrow> string list" where
  "assetPaths as = getResourcePaths add asset.jcrPath as True"

definition getJcrPaths :: "platform \<Rightarrow> page list \<Rightarrow> string \<Rightarrow> string list action" where
  "getJcrPaths P pages projectUrl =
     andThen (getJcrPages P pages projectUrl) (\<lambda>ps.
     andThen (setJcrPages ps) (\<lambda>_.
     andThen (getJcrAssets P pages projectUrl) (\<lambda>as s.
       (case jcrPages s of
          Array ps' \<Rightarrow> (Inr (pagePaths ps' @ assetPaths as), s)
        | Promise _ \<Rightarrow> (Inl TypeError, s)))))"

definition getJcrAssetPaths :: "platform \<Rightarrow> page list \<Rightarrow> string \<Rightarrow> string list action" where
  "getJcrAssetPaths P pages projectUrl =
     andThen (getJcrAssets P pages projectUrl) (\<lambda>as. return (assetPaths as))"

section \<open>Ancestor scaffold builder\<close>

definition ancestorXml :: string where
  \<open>ancestorXml = js_join nl
       [''<?xml version="1.0" encoding="UTF-8"?>'',
        ''    <jcr:root xmlns:jcr="http://www.jcp.org/jcr/1.0" xmlns:nt="http://www.jcp.org/jcr/nt/1.0" xmlns:cq="http://www.day.com/jcr/cq/1.0" xmlns:sling="http://sling.apache.org/jcr/sling/1.0" jcr:primaryType="cq:Page">'',
        ''        <jcr:content cq:template="/libs/core/franklin/templates/page" jcr:primaryType="cq:PageContent" sling:resourceType="core/franklin/components/page/v1/page"/>'',
        ''    </jcr:root>'']\<close>

definition emptyAncestor :: "string \<Rightarrow> page_node" where
  "emptyAncestor ancestorPath =
     \<lparr>jcrPath = ancestorPath,
      contentXmlPath = ''jcr_root'' @ ancestorPath @ ''/.content.xml'',
      processedXml = ancestorXml\<rparr>"

text \<open>
  The \<open>for\<close> loop over \<open>pathSegments[i]\<close>, \<open>2 \<le> i < pathSegments.length - 1\<close>: the
  segments still to visit, with the \<open>ancestorPath\<close> built so far.
\<close>

fun ancestorLoop :: "string list \<Rightarrow> string \<Rightarrow> string list \<Rightarrow> page_node list" where
  "ancestorLoop jcrPaths ancestorPath [] = []"
| "ancestorLoop jcrPaths ancestorPath (segment # segments) =
     (let ancestorPath' = ancestorPath @ ''/'' @ segment
      in (if ancestorPath' \<notin> set jcrPaths then [emptyAncestor ancestorPath'] else [])
         @ ancestorLoop jcrPaths ancestorPath' segments)"

definition getEmptyAncestorPages :: "jcr_page list \<Rightarrow> page_node list" where
  "getEmptyAncestorPages pages =
     (let jcrPaths = map page_node.jcrPath pages
      in concat (map (\<lambda>pagePath.
           let pathSegments = js_split CHR ''/'' pagePath
           in ancestorLoop jcrPaths ''/content'' (drop 2 (butlast pathSegments)))
         jcrPaths))"

section \<open>Filter and manifest builder\<close>

text \<open>The callback of the \<open>reduce\<close> over the pages, and the one over the asset paths.\<close>

definition pageFilter :: "string \<Rightarrow> jcr_page \<Rightarrow> string" where
  \<open>pageFilter acc p =
     (let propertiesFilter = js_join nl (map (\<lambda>prop.
            ''<include pattern='' @ [CHR 0x27] @ page_node.jcrPath p @ ''/jcr:content/'' @ prop
            @ [CHR 0x27] @ '' matchProperties='' @ [CHR 0x27] @ ''true'' @ [CHR 0x27] @ ''/>'')
            (pageProperties p));
          childrenFilter = js_join nl (map (\<lambda>child.
            ''<filter root='' @ [CHR 0x27] @ page_node.jcrPath p @ ''/jcr:content/'' @ child
            @ [CHR 0x27] @ ''/>'')
            (pageContentChildren p))
      in acc @ ''<filter root='' @ [CHR 0x27] @ page_node.jcrPath p @ ''/jcr:content''
           @ [CHR 0x27] @ ''>'' @ nl @ propertiesFilter @ nl @ ''</filter>'' @ nl
           @ childrenFilter @ nl)\<close>

definition assetFilter :: "string \<Rightarrow> string \<Rightarrow> string" where
  \<open>assetFilter acc path' =
     acc @ ''<filter root='' @ [CHR 0x27] @ path' @ [CHR 0x27] @ ''/>'' @ nl\<close>

definition filterXml :: "jcr_page list \<Rightarrow> string list \<Rightarrow> string" where
  \<open>filterXml ps jcrAssetPaths =
     (let pageFilters = foldl pageFilter [] ps;
          assetFilters = foldl assetFilter [] jcrAssetPaths
      in js_join nl
       [''<?xml version='' @ [CHR 0x27] @ ''1.0'' @ [CHR 0x27] @ '' encoding='' @ [CHR 0x27]
          @ ''UTF-8'' @ [CHR 0x27] @ ''?>'',
        ''    <workspaceFilter version='' @ [CHR 0x27] @ ''1.0'' @ [CHR 0x27] @ ''>'',
        ''      '' @ pageFilters,
        ''      '' @ assetFilters,
        ''    </workspaceFilter>''])\<close>

definition getFilterXml :: "platform \<Rightarrow> page list \<Rightarrow> string \<Rightarrow> (string \<times> string) action" where
  "getFilterXml P pages projectUrl =
     andThen (getJcrPages P pages projectUrl) (\<lambda>ps.
     andThen (setJcrPages ps) (\<lambda>_.
     andThen (getJcrAssetPaths P pages projectUrl) (\<lambda>jcrAssetPaths.
       return (''META-INF/vault/filter.xml'', filterXml ps jcrAssetPaths))))"

definition getPropertiesXml :: "platform \<Rightarrow> string option \<Rightarrow> string \<times> string" where
  \<open>getPropertiesXml P packageName =
     (let author = ''anonymous'';
          q = [CHR 0x27];
          entry = (\<lambda>key v. ''    <entry key='' @ q @ key @ q @ ''>'' @ v @ ''</entry>'')
      in (''META-INF/vault/properties.xml'', js_join nl
       [''<?xml version='' @ q @ ''1.0'' @ q @ '' encoding='' @ q @ ''UTF-8'' @ q @ ''?>'',
        ''    <!DOCTYPE properties SYSTEM '' @ q @ ''http://java.sun.com/dtd/properties.dtd''
          @ q @ ''>'',
        ''    <properties>'',
        ''    <comment>FileVault Package Properties</comment>'',
        entry ''description'' [],
        entry ''generator'' ''org.apache.jackrabbit.vault:3.7.1-T20231005151103-335689a8'',
        entry ''packageType'' ''content'',
        entry ''lastWrappedBy'' author,
        entry ''packageFormatVersion'' ''2'',
        entry ''group'' ''my_packages'',
        entry ''created'' (now P),
        entry ''lastModifiedBy'' author,
        entry ''buildCount'' ''1'',
        entry ''lastWrapped'' (now P),
        entry ''version'' [],
        entry ''dependencies'' [],
        entry ''createdBy'' author,
        entry ''name'' (js_template packageName),
        entry ''lastModified'' (now P),
        ''    </properties>'']))\<close>

section \<open>Package assembler\<close>

text \<open>
  The archive is an object the functions below change and share; each takes the archive
  and returns it with the new entries. \<open>addAsset\<close> also returns the asset, whose
  \<open>blob\<close> and \<open>mimeType\<close> \<open>fetchAssetData\<close> has set.
\<close>

definition addAsset :: "platform \<Rightarrow> asset \<Rightarrow> string \<Rightarrow> string \<Rightarrow> zip \<Rightarrow> (asset \<times> zip) action" where
  "addAsset P asset' dirHandle prefix' z =
     andThen (fetchAssetData P asset') (\<lambda>fetched'.
       let zipAssetPath = ''jcr_root'' @ js_template (asset.jcrPath fetched') @ ''/.content.xml'';
           fileAssetPath = prefix' @ ''/'' @ zipAssetPath;
           assetXml = getAssetXml (mimeType fetched');
           zipAssetOriginalPath = ''jcr_root'' @ js_template (asset.jcrPath fetched')
             @ ''/_jcr_content/renditions/original'';
           fileAssetOriginalPath = prefix' @ ''/'' @ zipAssetOriginalPath
       in andThen (saveFile dirHandle fileAssetPath (Text assetXml)) (\<lambda>_.
          andThen (saveFile dirHandle fileAssetOriginalPath (Binary (blob fetched'))) (\<lambda>_.
            return (fetched',
              zip_file zipAssetOriginalPath (Binary (blob fetched'))
                (zip_file zipAssetPath (Text assetXml) z)))))"

definition addPage :: "'a page_node_scheme \<Rightarrow> string \<Rightarrow> string \<Rightarrow> zip \<Rightarrow> zip action" where
  "addPage p dirHandle prefix' z =
     andThen (saveFile dirHandle (prefix' @ ''/'' @ contentXmlPath p) (Text (processedXml p))) (\<lambda>_.
       return (zip_file (contentXmlPath p) (Text (processedXml p)) z))"

definition addFilterXml :: "platform \<Rightarrow> page list \<Rightarrow> string \<Rightarrow> string \<Rightarrow> string \<Rightarrow> zip \<Rightarrow> zip action" where
  "addFilterXml P pages projectUrl dirHandle prefix' z =
     andThen (getFilterXml P pages projectUrl) (\<lambda>(filterXmlPath, filterXml').
     andThen (saveFile dirHandle (prefix' @ ''/'' @ filterXmlPath) (Text filterXml')) (\<lambda>_.
       return (zip_file filterXmlPath (Text filterXml') z)))"

definition addPropertiesXml :: "platform \<Rightarrow> string \<Rightarrow> string \<Rightarrow> zip \<Rightarrow> page list \<Rightarrow> string option \<Rightarrow> zip action" where
  "addPropertiesXml P dirHandle prefix' z pages packageName =
     (case getPropertiesXml P packageName of (propXmlPath, propXml) \<Rightarrow>
        andThen (saveFile dirHandle (prefix' @ ''/'' @ propXmlPath) (Text propXml)) (\<lambda>_.
          return (zip_file propXmlPath (Text propXml) z)))"

text \<open>
  The loop over \<open>jcrAssets\<close>: \<open>addAsset\<close> changes the asset in the collection. The
  assets already added are \<open>done\<close>, the ones to come \<open>todo\<close>.
\<close>

fun addAssets :: "platform \<Rightarrow> string \<Rightarrow> string \<Rightarrow> asset list \<Rightarrow> asset list \<Rightarrow> zip \<Rightarrow> zip action" where
  "addAssets P dirHandle prefix' done [] z = return z"
| "addAssets P dirHandle prefix' done (asset' # todo) z =
     andThen (addAsset P asset' dirHandle prefix' z) (\<lambda>(fetched', z') s.
       addAssets P dirHandle prefix' (done @ [fetched']) todo z'
         (s\<lparr>jcrAssets := done @ [fetched'] @ todo\<rparr>))"

text \<open>
  \<open>createJcrPackage\<close>. The archive is generated and saved without being awaited: the
  model puts that last effect at the end of the trace.
\<close>

definition createJcrPackage :: "platform \<Rightarrow> string \<Rightarrow> page list \<Rightarrow> string \<Rightarrow> unit action" where
  "createJcrPackage P dirHandle pages projectUrl s =
     (if pages = [] then (Inr (), s)
      else
        (andThen (lift (getPackageName P pages projectUrl)) (\<lambda>packageName.
         let prefix' = ''jcr'' in
         andThen (getJcrPages P pages projectUrl) (\<lambda>ps.
         andThen (setJcrPages ps) (\<lambda>_.
         andThen (foldM (\<lambda>p. addPage p dirHandle prefix') ps []) (\<lambda>z1.
         andThen (foldM (\<lambda>p. addPage p dirHandle prefix') (getEmptyAncestorPages ps) z1) (\<lambda>z2.
         andThen (getJcrAssets P pages projectUrl) (\<lambda>as.
         andThen (addAssets P dirHandle prefix' [] as z2) (\<lambda>z3.
         andThen (addFilterXml P pages projectUrl dirHandle prefix' z3) (\<lambda>z4.
         andThen (addPropertiesXml P dirHandle prefix' z4 pages packageName) (\<lambda>z5.
           emit (SaveArchive dirHandle
             (prefix' @ ''/'' @ js_template packageName @ ''.zip'') z5))))))))))) (init s))"

section \<open>Reading a filter document\<close>

text \<open>
  Every attribute value of the filter document is written between single quotes, and
  nothing else in it is. Cut at the quotes, the document is text, value, text, value,
  and so on: the \<open>root=\<close> targets are the values that follow a text ending in
  \<open> root=\<close>.
\<close>

fun rootValues :: "string list \<Rightarrow> string list" where
  "rootValues (t # v # rest) = (if suffix '' root='' t then [v] else []) @ rootValues rest"
| "rootValues _ = []"

definition rootTargets :: "string \<Rightarrow> string list" where
  "rootTargets doc = rootValues (js_split (CHR 0x27) doc)"

section \<open>Example inputs\<close>

text \<open>A project, a page with three references to one picture, and a browser that knows them.\<close>

definition exampleUrl :: "string \<Rightarrow> string \<Rightarrow> (string \<times> string) list \<Rightarrow> url" where
  "exampleUrl origin' pathname' params =
     \<lparr>href = origin' @ pathname'
        @ (if params = [] then []
           else ''?'' @ js_join ''&'' (map (\<lambda>(key, v). key @ ''='' @ v) params)),
      origin = origin', pathname = pathname', searchParams = params\<rparr>"

definition exampleDoc :: xml where
  "exampleDoc =
     Element ''http://www.jcp.org/jcr/1.0'' ''root'' ''jcr:root'' []
       [Element ''http://www.jcp.org/jcr/1.0'' ''content'' ''jcr:content''
          [(''jcr:title'', ''B'')]
          [Element [] ''hero'' ''hero'' [(''fileReference'', ''/media/a.png'')] [],
           Element [] ''teaser'' ''teaser'' [(''fileReference'', ''./a.png'')] [],
           Element [] ''logo'' ''logo'' [(''fileReference'', ''/media/a.png'')] []]]"

text \<open>A second page: two elements with the same reference to a picture on another server.\<close>

definition externalDoc :: xml where
  "externalDoc =
     Element ''http://www.jcp.org/jcr/1.0'' ''root'' ''jcr:root'' []
       [Element ''http://www.jcp.org/jcr/1.0'' ''content'' ''jcr:content'' []
          [Element [] ''hero'' ''hero'' [(''fileReference'', ''https://cdn.example/x.png'')] [],
           Element [] ''logo'' ''logo'' [(''fileReference'', ''https://cdn.example/x.png'')] []]]"

definition examplePlatform :: "fetched \<Rightarrow> platform" where
  "examplePlatform answer =
     \<lparr>newURL = map_of (map (\<lambda>u. (href u, u))
        [exampleUrl ''https://github.com'' ''/org/repo'' [],
         exampleUrl ''https://host'' ''/media/b'' [],
         exampleUrl ''https://host'' ''/media/a.png'' [],
         exampleUrl ''https://host'' ''/news'' [],
         exampleUrl ''https://cdn.example'' ''/x.png'' []]),
      fetch = (\<lambda>_. answer),
      parseFromString = (\<lambda>markup. if markup = ''<external/>'' then externalDoc else exampleDoc),
      serializeToString = (\<lambda>_. ''<xml/>''),
      now = ''2024-01-01T00:00:00.000Z''\<rparr>"

definition exampleProject :: string where
  "exampleProject = ''https://github.com/org/repo''"

definition examplePage :: page where
  "examplePage =
     \<lparr>page.path = ''/media/b'', page.data = ''<xml/>'', page.url = ''https://host/media/b''\<rparr>"

definition externalPage :: page where
  "externalPage =
     \<lparr>page.path = ''/news'', page.data = ''<external/>'', page.url = ''https://host/news''\<rparr>"

definition emptyState :: state where
  "emptyState = \<lparr>jcrPages = Array [], jcrAssets = [], trace = []\<rparr>"

definition goodResponse :: fetched where
  "goodResponse =
     Response \<lparr>ok = True, status = 200, body = ''PNG'', contentType = Some ''image/png''\<rparr>"

definition notFound :: fetched where
  "notFound = Response \<lparr>ok = False, status = 404, body = [], contentType = None\<rparr>"

definition networkFailure :: fetched where
  "networkFailure = Rejected ''TypeError: Failed to fetch''"

definition examplePageAt :: "string \<Rightarrow> jcr_page" where
  "examplePageAt jcrPath' =
     \<lparr>jcrPath = jcrPath',
      contentXmlPath = ''jcr_root'' @ jcrPath' @ ''/.content.xml'',
      processedXml = ''<xml/>'',
      path = jcrPath',
      sourceXml = ''<xml/>'',
      pageProperties = [],
      pageContentChildren = [],
      url = ''https://host'' @ jcrPath'\<rparr>"

section \<open>Vocabulary of the properties\<close>

text \<open>How often a trace parses a string and fetches a URL.\<close>

definition parseCount :: "string \<Rightarrow> event list \<Rightarrow> nat" where
  "parseCount xml' tr = length (filter (\<lambda>ev. ev = Parse xml') tr)"

definition fetchCount :: "string \<Rightarrow> event list \<Rightarrow> nat" where
  "fetchCount href' tr = length (filter (\<lambda>ev. ev = Fetch href') tr)"

text \<open>The paths a trace saves to, in order.\<close>

definition savedPaths :: "event list \<Rightarrow> string list" where
  "savedPaths tr =
     concat (map (\<lambda>ev. case ev of SaveFile _ p _ \<Rightarrow> [p] | SaveArchive _ p _ \<Rightarrow> [p] | _ \<Rightarrow> []) tr)"

text \<open>
  The paths a trace saves a file with no bytes to, the messages it logs, and the three
  together as what a build leaves to see.
\<close>

definition savedEmpty :: "event list \<Rightarrow> string list" where
  "savedEmpty tr =
     concat (map (\<lambda>ev. case ev of SaveFile _ p (Binary None) \<Rightarrow> [p] | _ \<Rightarrow> []) tr)"

definition consoleErrors :: "event list \<Rightarrow> string list" where
  "consoleErrors tr = concat (map (\<lambda>ev. case ev of ConsoleError m \<Rightarrow> [m] | _ \<Rightarrow> []) tr)"

definition report :: "state \<Rightarrow> string list \<times> string list \<times> string list" where
  "report s = (savedPaths (trace s), savedEmpty (trace s), consoleErrors (trace s))"

text \<open>
  The ancestors a page path requires: with the segments of the path after the first two
  and before the last, the path \<open>/content\<close> followed by the first \<open>k\<close> of them, for
  every \<open>k\<close> from one to their number.
\<close>

definition pathSegmentsBelowContent :: "string \<Rightarrow> string list" where
  "pathSegmentsBelowContent pagePath = drop 2 (butlast (js_split CHR ''/'' pagePath))"

definition ancestorAt :: "string list \<Rightarrow> nat \<Rightarrow> string" where
  "ancestorAt segments k = ''/content'' @ concat (map (\<lambda>segment. ''/'' @ segment) (take k segments))"

definition requiredAncestors :: "string \<Rightarrow> string set" where
  "requiredAncestors pagePath =
     ancestorAt (pathSegmentsBelowContent pagePath) ` {1 .. length (pathSegmentsBelowContent pagePath)}"

text \<open>
  A string that can stand between single quotes; the roots the block of a page
  declares; the pages in the cache.
\<close>

definition quoteFree :: "string \<Rightarrow> bool" where
  "quoteFree t = (CHR 0x27 \<notin> set t)"

definition pageRoots :: "jcr_page \<Rightarrow> string list" where
  "pageRoots p =
     (page_node.jcrPath p @ ''/jcr:content'')
     # map (\<lambda>child. page_node.jcrPath p @ ''/jcr:content/'' @ child) (pageContentChildren p)"

definition cachedPages :: "state \<Rightarrow> jcr_page list" where
  "cachedPages s =
     (case jcrPages s of
        Array ps \<Rightarrow> ps
      | Promise settled \<Rightarrow> (case settled of Inl _ \<Rightarrow> [] | Inr ps \<Rightarrow> ps))"

text \<open>The page paths and the asset paths of a state, as \<open>getResourcePaths\<close> lists them.\<close>

definition packagedPaths :: "state \<Rightarrow> string list \<times> string list" where
  "packagedPaths s = (pagePaths (cachedPages s), assetPaths (jcrAssets s))"

text \<open>
  The elements of a page that make \<open>getProcessedJcr\<close> fetch a URL: those whose reference
  is an absolute URL that resolves to an asset not to be added, at that URL.
\<close>

definition fetchedFor :: "platform \<Rightarrow> string \<Rightarrow> string \<Rightarrow> string \<Rightarrow> xml \<Rightarrow> bool" where
  "fetchedFor P pageUrl projectUrl href' img =
     (case getAttribute ''fileReference'' img of
        None \<Rightarrow> False
      | Some ref \<Rightarrow>
          prefix ''http'' ref
          \<and> (case getAsset P (Some ref) pageUrl projectUrl of
                Inr (Some a) \<Rightarrow> \<not> add a \<and> map_option href (asset.url a) = Some href'
              | _ \<Rightarrow> False))"

definition externalFetches :: "platform \<Rightarrow> string \<Rightarrow> page \<Rightarrow> string \<Rightarrow> nat" where
  "externalFetches P projectUrl p href' =
     length (filter (fetchedFor P (page.url p) projectUrl href')
       (querySelectorAll_fileReference (parseFromString P (page.data p))))"

section \<open>Reasoning about actions\<close>

text \<open>
  \<open>keepsAssets m\<close>: the action leaves the asset collection as it is.
  \<open>triple pre m post err\<close>: from a state where \<open>pre\<close> holds, \<open>m\<close> ends in a state
  where \<open>post\<close> holds of its result, or throws in a state where \<open>err\<close> holds.
\<close>

definition keepsAssets :: "'a action \<Rightarrow> bool" where
  "keepsAssets m = (\<forall>s. jcrAssets (snd (m s)) = jcrAssets s)"

definition uniquePaths :: "state \<Rightarrow> bool" where
  "uniquePaths s = distinct (map asset.jcrPath (jcrAssets s))"

definition triple :: "(state \<Rightarrow> bool) \<Rightarrow> 'a action \<Rightarrow> ('a \<Rightarrow> state \<Rightarrow> bool) \<Rightarrow> (state \<Rightarrow> bool) \<Rightarrow> bool" where
  "triple pre m post err =
     (\<forall>s r s'. pre s \<longrightarrow> m s = (r, s') \<longrightarrow> (case r of Inl e \<Rightarrow> err s' | Inr a \<Rightarrow> post a s'))"

text \<open>
  \<open>emits x rs\<close>: wherever \<open>x\<close> stands in a document, after a text without quotes, it
  adds the targets \<open>rs\<close> to those of the document and ends in a text without quotes.
\<close>

definition emits :: "string \<Rightarrow> string list \<Rightarrow> bool" where
  "emits x rs =
     (\<forall>buf. quoteFree buf \<longrightarrow>
        (\<exists>buf'. quoteFree buf' \<and>
           (\<forall>rest. rootValues (js_split (CHR 0x27) (buf @ x @ rest))
                     = rs @ rootValues (js_split (CHR 0x27) (buf' @ rest)))))"

text \<open>
  \<open>quiet m\<close>: the action leaves the page cache as it is and parses nothing.
  \<open>parsing m k\<close>: when the action ends, the page cache is as it was and every string
  \<open>x\<close> has been parsed \<open>k x\<close> more times. \<open>assetsFunctional m\<close>: what the action
  returns and the asset collection it leaves depend on the asset collection only.
\<close>

definition quiet :: "'a action \<Rightarrow> bool" where
  "quiet m =
     (\<forall>s x. jcrPages (snd (m s)) = jcrPages s
          \<and> parseCount x (trace (snd (m s))) = parseCount x (trace s))"

definition parsing :: "'a action \<Rightarrow> (string \<Rightarrow> nat) \<Rightarrow> bool" where
  "parsing m k =
     (\<forall>s a s' x. m s = (Inr a, s') \<longrightarrow>
        jcrPages s' = jcrPages s \<and> parseCount x (trace s') = parseCount x (trace s) + k x)"

definition assetsFunctional :: "'a action \<Rightarrow> bool" where
  "assetsFunctional m =
     (\<forall>s t. jcrAssets s = jcrAssets t \<longrightarrow>
        fst (m s) = fst (m t) \<and> jcrAssets (snd (m s)) = jcrAssets (snd (m t)))"

text \<open>
  \<open>fetchless m\<close>: the action fetches nothing. \<open>fetching m k\<close>: when the action ends,
  every URL \<open>h\<close> has been fetched \<open>k h\<close> more times.
\<close>

definition fetchless :: "'a action \<Rightarrow> bool" where
  "fetchless m = (\<forall>s h. fetchCount h (trace (snd (m s))) = fetchCount h (trace s))"

definition fetching :: "'a action \<Rightarrow> (string \<Rightarrow> nat) \<Rightarrow> bool" where
  "fetching m k =
     (\<forall>s a s' h. m s = (Inr a, s') \<longrightarrow>
        fetchCount h (trace s') = fetchCount h (trace s) + k h)"

section \<open>Splitting and joining\<close>

lemma js_split_not_Nil: "js_split sep s \<noteq> []"
  by (induction s) (auto split: list.splits)

lemma js_split_sep: "sep \<notin> set a \<Longrightarrow> js_split sep (a @ sep # r) = a # js_split sep r"
  by (induction a) (auto split: list.splits)

lemma js_split_none: "sep \<notin> set t \<Longrightarrow> js_split sep t = [t]"
  by (induction t) auto

lemma js_join_Cons: "js_join sep (t # ts) = t @ (if ts = [] then [] else sep @ js_join sep ts)"
  by (cases ts) auto

lemma split_content:
  "js_split CHR ''/'' (''/content/'' @ r) = [] # ''content'' # js_split CHR ''/'' r"
  using js_split_sep[of "CHR ''/''" "[]" "''content/'' @ r"]
        js_split_sep[of "CHR ''/''" "''content''" r]
  by simp

lemma split_content_dam:
  "js_split CHR ''/'' (''/content/dam/'' @ r) = [] # ''content'' # ''dam'' # js_split CHR ''/'' r"
  using split_content[of "''dam/'' @ r"] js_split_sep[of "CHR ''/''" "''dam''" r]
  by simp

lemma getSiteName_second_segment:
  "newURL P projectUrl = Some u \<Longrightarrow>
   getSiteName P projectUrl = Inr (js_index (js_split CHR ''/'' (pathname u)) 2)"
  by (simp add: getSiteName_def CUSTOM_SITE_NAME_def js_truthy_def)

lemma pagePath_prefix:
  assumes "getSiteName P projectUrl = Inr (Some siteName)"
  shows "\<exists>r. getJcrPagePath P sourcePath projectUrl = Inr r \<and> prefix (''/content/'' @ siteName) r"
proof (cases "prefix ''/content/'' sourcePath")
  case True
  then obtain r where r: "sourcePath = ''/content/'' @ r" by (auto simp: prefix_def)
  obtain t ts where ts: "js_split CHR ''/'' r = t # ts"
    using js_split_not_Nil[of "CHR ''/''" r] by (cases "js_split CHR ''/'' r") auto
  have "getJcrPagePath P sourcePath projectUrl
          = Inr (''/content/'' @ siteName @ (if ts = [] then [] else ''/'' @ js_join ''/'' ts))"
    using assms True ts
    by (simp add: getJcrPagePath_def r split_content js_splice1_def js_join_elem_def js_join_Cons)
  then show ?thesis by (simp add: prefix_def)
next
  case False
  then show ?thesis using assms by (simp add: getJcrPagePath_def js_template_def prefix_def)
qed

lemma assetPath_prefix:
  assumes "getSiteName P projectUrl = Inr (Some siteName)"
  shows "\<exists>r. getJcrAssetPath P assetUrl projectUrl = Inr r \<and> prefix (''/content/dam/'' @ siteName) r"
proof (cases "prefix ''/content/dam/'' (getJcrAssetPath_path (pathname assetUrl))")
  case True
  then obtain r where r: "getJcrAssetPath_path (pathname assetUrl) = ''/content/dam/'' @ r"
    by (auto simp: prefix_def)
  obtain t ts where ts: "js_split CHR ''/'' r = t # ts"
    using js_split_not_Nil[of "CHR ''/''" r] by (cases "js_split CHR ''/'' r") auto
  have "getJcrAssetPath P assetUrl projectUrl
          = Inr (''/content/dam/'' @ siteName @ (if ts = [] then [] else ''/'' @ js_join ''/'' ts)
                 @ getJcrAssetPath_extension (pathname assetUrl))"
    using assms True ts
    by (simp add: getJcrAssetPath_def r split_content_dam js_splice1_def js_join_elem_def js_join_Cons Let_def)
  then show ?thesis by (simp add: prefix_def)
next
  case False
  then show ?thesis using assms by (simp add: getJcrAssetPath_def js_template_def prefix_def Let_def)
qed

section \<open>Path mapper: properties\<close>

text \<open>
  Claim C7. When the project URL parses and its path has a second segment, that segment
  is the site name: every page path \<open>getJcrPagePath\<close> returns starts with
  \<open>/content/<siteName>\<close> and every asset path \<open>getJcrAssetPath\<close> returns starts with
  \<open>/content/dam/<siteName>\<close>, whatever the source path and the asset URL are.
\<close>

theorem C7_namespace_containment:
  assumes "newURL P projectUrl = Some u"
    and "js_index (js_split CHR ''/'' (pathname u)) 2 = Some siteName"
  shows "(\<exists>r. getJcrPagePath P sourcePath projectUrl = Inr r \<and> prefix (''/content/'' @ siteName) r)
       \<and> (\<exists>r. getJcrAssetPath P assetUrl projectUrl = Inr r
              \<and> prefix (''/content/dam/'' @ siteName) r)"
proof -
  have "getSiteName P projectUrl = Inr (Some siteName)"
    using assms by (simp add: getSiteName_second_segment)
  then show ?thesis
    using pagePath_prefix assetPath_prefix by blast
qed

lemma example_newURL:
  "newURL (examplePlatform a) exampleProject = Some (exampleUrl ''https://github.com'' ''/org/repo'' [])"
  by (simp add: examplePlatform_def exampleProject_def exampleUrl_def)

lemma example_segment:
  "js_index (js_split CHR ''/'' (pathname (exampleUrl ''https://github.com'' ''/org/repo'' []))) 2 = Some ''repo''"
  by (simp add: exampleUrl_def js_index_def)

theorem C7_namespace_containment_witness:
  "newURL (examplePlatform (Rejected [])) exampleProject = Some (exampleUrl ''https://github.com'' ''/org/repo'' [])
   \<and> js_index (js_split CHR ''/'' (pathname (exampleUrl ''https://github.com'' ''/org/repo'' []))) 2 = Some ''repo''
   \<and> (\<exists>r. getJcrPagePath (examplePlatform (Rejected [])) ''/content/other-site/foo'' exampleProject = Inr r
          \<and> prefix (''/content/'' @ ''repo'') r)
   \<and> (\<exists>r. getJcrAssetPath (examplePlatform (Rejected [])) (exampleUrl ''https://host'' ''/media/a.png'' [(''width'', ''100'')]) exampleProject = Inr r
          \<and> prefix (''/content/dam/'' @ ''repo'') r)"
  using C7_namespace_containment[OF example_newURL example_segment, of "Rejected []" "''/content/other-site/foo''" "exampleUrl ''https://host'' ''/media/a.png'' [(''width'', ''100'')]"]
    example_newURL[of "Rejected []"] example_segment
  by simp

text \<open>
  Claim C10. For a missing reference (\<open>undefined\<close> or \<open>null\<close>) and for the empty
  string, \<open>getAsset\<close> returns \<open>null\<close> and \<open>getProcessedFileRef\<close>, which reads
  \<open>processedFileRef\<close> of that result, throws a \<open>TypeError\<close>: no reference is returned.
\<close>

theorem C10_getProcessedFileRef_empty_fails:
  "getProcessedFileRef P None pageUrl projectUrl = Inl TypeError
   \<and> getProcessedFileRef P (Some []) pageUrl projectUrl = Inl TypeError"
  by (simp add: getProcessedFileRef_def getAsset_def)

text \<open>
  Claim C9. A build of no pages returns at once: the result is not an error, the trace
  has no new effect (nothing is parsed, fetched or saved) and the cache is untouched.
\<close>

theorem C9_zero_pages_noop:
  "createJcrPackage P dirHandle [] projectUrl s = (Inr (), s)"
  by (simp add: createJcrPackage_def)

text \<open>Where the path has no dot, or one dot and that in its last place, the split is right.\<close>

lemma js_replace_at:
  "CHR ''.'' \<notin> set b \<Longrightarrow> js_replace (CHR ''.'' # e) [] (b @ CHR ''.'' # e) = b"
  by (induction b) auto

lemma extension_split_no_dot:
  "CHR ''.'' \<notin> set pathname' \<Longrightarrow>
   getJcrAssetPath_extension pathname' = [] \<and> getJcrAssetPath_path pathname' = pathname'"
  by (cases pathname') (simp_all add: getJcrAssetPath_extension_def getJcrAssetPath_path_def)

lemma extension_split_one_dot:
  assumes "CHR ''.'' \<notin> set b" and "CHR ''.'' \<notin> set e"
  shows "getJcrAssetPath_extension (b @ CHR ''.'' # e) = CHR ''.'' # e
       \<and> getJcrAssetPath_path (b @ CHR ''.'' # e) = b"
proof -
  have "js_split CHR ''.'' (b @ CHR ''.'' # e) = [b, e]"
    using assms by (simp add: js_split_sep js_split_none)
  then have "getJcrAssetPath_extension (b @ CHR ''.'' # e) = CHR ''.'' # e"
    by (simp add: getJcrAssetPath_extension_def js_pop_def js_template_def)
  then show ?thesis
    using assms(1) by (simp add: getJcrAssetPath_path_def js_replace_at)
qed

text \<open>
  Claim C5. The extension is cut at the last dot of the whole path, not of its last
  segment, and \<open>replace\<close> removes the first occurrence of the extension, not the
  trailing one. For \<open>/a.png/b.png\<close> the base is \<open>/a/b.png\<close>, and base and extension
  do not give the path back; for \<open>/v1.2/logo\<close>, whose last segment has no dot, the
  extension is \<open>.2/logo\<close> and the query suffix lands in the directory name.
\<close>

theorem C5_extension_split_failing:
  "getJcrAssetPath_extension ''/a.png/b.png'' = ''.png''
   \<and> getJcrAssetPath_path ''/a.png/b.png'' = ''/a/b.png''
   \<and> getJcrAssetPath_path ''/a.png/b.png'' @ getJcrAssetPath_extension ''/a.png/b.png'' \<noteq> ''/a.png/b.png''
   \<and> getJcrAssetPath (examplePlatform (Rejected [])) (exampleUrl ''https://host'' ''/a.png/b.png'' []) exampleProject
       = Inr ''/content/dam/repo/a/b.png.png''
   \<and> getJcrAssetPath_extension ''/v1.2/logo'' = ''.2/logo''
   \<and> getJcrAssetPath (examplePlatform (Rejected [])) (exampleUrl ''https://host'' ''/v1.2/logo'' [(''width'', ''100'')]) exampleProject
       = Inr ''/content/dam/repo/v1_width100.2/logo''"
  by code_simp

section \<open>Ancestor scaffold builder: properties\<close>

lemma ancestorLoop_paths:
  "map page_node.jcrPath (ancestorLoop jcrPaths acc segments)
     = filter (\<lambda>a. a \<notin> set jcrPaths)
         (map (\<lambda>k. acc @ concat (map (\<lambda>segment. ''/'' @ segment) (take k segments)))
              [1 ..< Suc (length segments)])"
proof (induction segments arbitrary: acc)
  case Nil
  then show ?case by simp
next
  case (Cons segment segments)
  have shift: "[1 ..< Suc (length (segment # segments))] = 1 # map Suc [1 ..< Suc (length segments)]"
    by (metis length_Cons map_Suc_upt upt_conv_Cons zero_less_Suc One_nat_def less_Suc_eq_0_disj)
  show ?case
    unfolding shift
    by (simp add: Cons.IH Let_def emptyAncestor_def comp_def)
qed

lemma ancestorAt_length_mono:
  "k < k' \<Longrightarrow> k' \<le> length segments \<Longrightarrow>
   length (ancestorAt segments k) < length (ancestorAt segments k')"
proof (induction k' arbitrary: k)
  case 0
  then show ?case by simp
next
  case (Suc k')
  have "k' < length segments" using Suc.prems by simp
  then have step: "length (ancestorAt segments k') < length (ancestorAt segments (Suc k'))"
    by (simp add: ancestorAt_def take_Suc_conv_app_nth)
  show ?case
  proof (cases "k = k'")
    case True
    then show ?thesis using step by simp
  next
    case False
    then have "k < k'" using Suc.prems by simp
    then show ?thesis using Suc.IH[of k] Suc.prems step by simp
  qed
qed

lemma ancestorAt_inj:
  "inj_on (ancestorAt segments) (set [1 ..< Suc (length segments)])"
proof (rule inj_onI)
  fix k k'
  assume k: "k \<in> set [1 ..< Suc (length segments)]"
    and k': "k' \<in> set [1 ..< Suc (length segments)]"
    and eq: "ancestorAt segments k = ancestorAt segments k'"
  show "k = k'"
  proof (rule ccontr)
    assume "k \<noteq> k'"
    then consider "k < k'" | "k' < k" by linarith
    then show False
    proof cases
      case 1
      have "k' \<le> length segments" using k' by auto
      from ancestorAt_length_mono[OF 1 this] eq show ?thesis by simp
    next
      case 2
      have "k \<le> length segments" using k by auto
      from ancestorAt_length_mono[OF 2 this] eq show ?thesis by simp
    qed
  qed
qed

lemma count_list_filter:
  "count_list (filter Q xs) a = (if Q a then count_list xs a else 0)"
  by (induction xs) auto

lemma count_list_distinct:
  "distinct xs \<Longrightarrow> count_list xs a = (if a \<in> set xs then 1 else 0)"
  by (induction xs) auto

lemma sum_list_indicator:
  "(\<Sum>x\<leftarrow>xs. if Q x then 1 else 0) = length (filter Q xs)"
  by (induction xs) auto

lemma ancestorLoop_count:
  "count_list (map page_node.jcrPath
       (ancestorLoop jcrPaths ''/content'' (pathSegmentsBelowContent pagePath))) a
     = (if a \<notin> set jcrPaths \<and> a \<in> requiredAncestors pagePath then 1 else 0)"
proof -
  let ?segments = "pathSegmentsBelowContent pagePath"
  let ?all = "map (ancestorAt ?segments) [1 ..< Suc (length ?segments)]"
  have d: "distinct ?all"
    unfolding distinct_map using ancestorAt_inj[of ?segments] by simp
  have "set [1 ..< Suc (length ?segments)] = {1 .. length ?segments}"
    by auto
  then have s: "set ?all = requiredAncestors pagePath"
    unfolding requiredAncestors_def set_map by (rule arg_cong)
  have "map page_node.jcrPath (ancestorLoop jcrPaths ''/content'' ?segments)
          = filter (\<lambda>a. a \<notin> set jcrPaths) ?all"
    unfolding ancestorAt_def by (rule ancestorLoop_paths)
  then show ?thesis
    using count_list_distinct[OF d, of a] s by (simp add: count_list_filter)
qed

text \<open>
  Claim C2, as amended. \<open>getEmptyAncestorPages\<close> emits no path that is a resolved page
  path, and it emits every other path as often as there are resolved pages that
  require it as an ancestor: once when one page requires it, again for each further
  page. Nothing records what was emitted before.
\<close>

theorem C2_ancestors_emitted_per_page:
  "count_list (map page_node.jcrPath (getEmptyAncestorPages pages)) a
     = (if a \<in> set (map page_node.jcrPath pages) then 0
        else length (filter (\<lambda>p. a \<in> requiredAncestors (page_node.jcrPath p)) pages))"
proof -
  let ?paths = "map page_node.jcrPath pages"
  have "count_list (map page_node.jcrPath (getEmptyAncestorPages pages)) a
      = (\<Sum>pagePath\<leftarrow>?paths. count_list (map page_node.jcrPath
            (ancestorLoop ?paths ''/content'' (pathSegmentsBelowContent pagePath))) a)"
    by (simp add: getEmptyAncestorPages_def Let_def map_concat count_list_concat comp_def
          pathSegmentsBelowContent_def)
  also have "\<dots> = (\<Sum>pagePath\<leftarrow>?paths.
        if a \<notin> set ?paths \<and> a \<in> requiredAncestors pagePath then 1 else 0)"
    by (simp only: ancestorLoop_count)
  also have "\<dots> = length (filter (\<lambda>pagePath. a \<notin> set ?paths \<and> a \<in> requiredAncestors pagePath) ?paths)"
    by (rule sum_list_indicator)
  also have "\<dots> = (if a \<in> set ?paths then 0
        else length (filter (\<lambda>p. a \<in> requiredAncestors (page_node.jcrPath p)) pages))"
    by (simp add: filter_map comp_def)
  finally show ?thesis .
qed

text \<open>
  Claim C2 as stated fails: two pages under \<open>/content/repo/a\<close> make the builder emit
  that ancestor twice.
\<close>

theorem C2_ancestors_counterexample:
  "count_list (map page_node.jcrPath
      (getEmptyAncestorPages [examplePageAt ''/content/repo/a/b'', examplePageAt ''/content/repo/a/c'']))
      ''/content/repo/a'' = 2"
  by code_simp

section \<open>Query folding\<close>

text \<open>
  Claim C6, as amended. Two asset URLs with the same path, for a project URL that
  parses, both get a canonical path. When the path (less its extension) is under
  \<open>/content/dam/\<close> the query is ignored and the two paths are equal; otherwise the two
  paths differ exactly when the folded queries differ, the folded query being the
  \<open>_<key><value>\<close> of every key in order, with the first value of the key.
\<close>

theorem C6_query_folding:
  assumes "pathname u1 = pathname u2"
    and "newURL P projectUrl = Some project"
  shows "\<exists>r1 r2. getJcrAssetPath P u1 projectUrl = Inr r1
           \<and> getJcrAssetPath P u2 projectUrl = Inr r2
           \<and> (if prefix ''/content/dam/'' (getJcrAssetPath_path (pathname u1))
              then r1 = r2
              else (r1 = r2) = (getJcrAssetPath_suffix (searchParams u1)
                                 = getJcrAssetPath_suffix (searchParams u2)))"
  using assms
  by (simp add: getJcrAssetPath_def getSiteName_def CUSTOM_SITE_NAME_def js_truthy_def Let_def)

theorem C6_query_folding_witness:
  "pathname (exampleUrl ''https://host'' ''/media/a.png'' [(''width'', ''100'')])
     = pathname (exampleUrl ''https://host'' ''/media/a.png'' [(''width'', ''200'')])
   \<and> newURL (examplePlatform goodResponse) exampleProject
       = Some (exampleUrl ''https://github.com'' ''/org/repo'' [])
   \<and> getJcrAssetPath (examplePlatform goodResponse)
         (exampleUrl ''https://host'' ''/media/a.png'' [(''width'', ''100'')]) exampleProject
       \<noteq> getJcrAssetPath (examplePlatform goodResponse)
         (exampleUrl ''https://host'' ''/media/a.png'' [(''width'', ''200'')]) exampleProject"
proof -
  have same: "pathname (exampleUrl ''https://host'' ''/media/a.png'' [(''width'', ''100'')])
     = pathname (exampleUrl ''https://host'' ''/media/a.png'' [(''width'', ''200'')])"
    by (simp add: exampleUrl_def)
  have dam: "\<not> prefix ''/content/dam/'' (getJcrAssetPath_path
      (pathname (exampleUrl ''https://host'' ''/media/a.png'' [(''width'', ''100'')])))"
    by code_simp
  have differ: "getJcrAssetPath_suffix
        (searchParams (exampleUrl ''https://host'' ''/media/a.png'' [(''width'', ''100'')]))
      \<noteq> getJcrAssetPath_suffix
        (searchParams (exampleUrl ''https://host'' ''/media/a.png'' [(''width'', ''200'')]))"
    by code_simp
  show ?thesis
    using C6_query_folding[OF same example_newURL[of goodResponse]] same dam differ
      example_newURL[of goodResponse]
    by auto
qed

text \<open>
  Claim C6 as stated fails. Under \<open>/content/dam/\<close> the query is dropped, so two widths of
  one picture get one path; elsewhere \<open>?a=bc\<close> and \<open>?ab=c\<close> fold to the same suffix.
\<close>

theorem C6_query_folding_counterexample:
  "exampleUrl ''https://host'' ''/content/dam/x/a.png'' [(''width'', ''100'')]
     \<noteq> exampleUrl ''https://host'' ''/content/dam/x/a.png'' [(''width'', ''200'')]
   \<and> getJcrAssetPath (examplePlatform goodResponse)
         (exampleUrl ''https://host'' ''/content/dam/x/a.png'' [(''width'', ''100'')]) exampleProject
       = Inr ''/content/dam/repo/a.png''
   \<and> getJcrAssetPath (examplePlatform goodResponse)
         (exampleUrl ''https://host'' ''/content/dam/x/a.png'' [(''width'', ''200'')]) exampleProject
       = Inr ''/content/dam/repo/a.png''
   \<and> exampleUrl ''https://host'' ''/media/a.png'' [(''a'', ''bc'')]
     \<noteq> exampleUrl ''https://host'' ''/media/a.png'' [(''ab'', ''c'')]
   \<and> getJcrAssetPath (examplePlatform goodResponse)
         (exampleUrl ''https://host'' ''/media/a.png'' [(''a'', ''bc'')]) exampleProject
       = Inr ''/content/dam/repo/media/a_abc.png''
   \<and> getJcrAssetPath (examplePlatform goodResponse)
         (exampleUrl ''https://host'' ''/media/a.png'' [(''ab'', ''c'')]) exampleProject
       = Inr ''/content/dam/repo/media/a_abc.png''"
  by (simp add: exampleUrl_def examplePlatform_def exampleProject_def goodResponse_def
        getJcrAssetPath_def getSiteName_def CUSTOM_SITE_NAME_def js_truthy_def js_index_def
        getJcrAssetPath_path_def getJcrAssetPath_extension_def getJcrAssetPath_suffix_def
        js_pop_def js_template_def js_splice1_def js_join_elem_def Let_def)

section \<open>Cache: the asset collection\<close>

lemma keepsAssetsI: "(\<And>s. jcrAssets (snd (m s)) = jcrAssets s) \<Longrightarrow> keepsAssets m"
  by (simp add: keepsAssets_def)

lemma keepsAssetsD: "keepsAssets m \<Longrightarrow> jcrAssets (snd (m s)) = jcrAssets s"
  by (simp add: keepsAssets_def)

lemma keepsAssets_andThen:
  assumes "keepsAssets m" and "\<And>a. keepsAssets (f a)"
  shows "keepsAssets (andThen m f)"
proof (rule keepsAssetsI)
  fix s
  obtain r s' where m: "m s = (r, s')" by (cases "m s")
  have s': "jcrAssets s' = jcrAssets s" using keepsAssetsD[OF assms(1), of s] m by simp
  show "jcrAssets (snd (andThen m f s)) = jcrAssets s"
  proof (cases r)
    case (Inl e)
    then show ?thesis using m s' by (simp add: andThen_def)
  next
    case (Inr a)
    then show ?thesis using m s' keepsAssetsD[OF assms(2), of a s'] by (simp add: andThen_def)
  qed
qed

lemma keepsAssets_return: "keepsAssets (return a)"
  by (simp add: keepsAssets_def return_def)

lemma keepsAssets_throw: "keepsAssets (throw e)"
  by (simp add: keepsAssets_def throw_def)

lemma keepsAssets_lift: "keepsAssets (lift r)"
  by (simp add: keepsAssets_def lift_def)

lemma keepsAssets_emit: "keepsAssets (emit ev)"
  by (simp add: keepsAssets_def emit_def)

lemma keepsAssets_setJcrPages: "keepsAssets (setJcrPages ps)"
  by (simp add: keepsAssets_def setJcrPages_def)

lemma keepsAssets_saveFile: "keepsAssets (saveFile d p c)"
  by (simp add: saveFile_def keepsAssets_emit)

lemmas keepsAssets_basic =
  keepsAssets_andThen keepsAssets_return keepsAssets_throw keepsAssets_lift keepsAssets_emit
  keepsAssets_setJcrPages keepsAssets_saveFile

lemma keepsAssets_mapM: "(\<And>x. keepsAssets (f x)) \<Longrightarrow> keepsAssets (mapM f xs)"
  by (induction xs) (auto intro!: keepsAssets_basic)

lemma keepsAssets_forEach: "(\<And>x. keepsAssets (f x)) \<Longrightarrow> keepsAssets (forEach f xs)"
  by (induction xs) (auto intro!: keepsAssets_basic)

lemma keepsAssets_foldM: "(\<And>x z. keepsAssets (f x z)) \<Longrightarrow> keepsAssets (foldM f xs z)"
  by (induction xs arbitrary: z) (auto intro!: keepsAssets_basic)

lemma keepsAssets_fetchAssetData: "keepsAssets (fetchAssetData P a)"
  unfolding fetchAssetData_def Let_def
  by (auto intro!: keepsAssets_basic split: option.splits fetched.splits)

lemma keepsAssets_processImage: "keepsAssets (processImage P pageUrl projectUrl img)"
  unfolding processImage_def Let_def
  by (auto intro!: keepsAssets_basic keepsAssets_fetchAssetData split: option.splits)

lemma keepsAssets_getProcessedJcr: "keepsAssets (getProcessedJcr P x pageUrl projectUrl)"
  unfolding getProcessedJcr_def Let_def
  by (auto intro!: keepsAssets_basic keepsAssets_mapM keepsAssets_processImage)

lemma keepsAssets_getPageProperties: "keepsAssets (getPageProperties P x)"
  unfolding getPageProperties_def
  by (auto intro!: keepsAssets_basic split: option.splits)

lemma keepsAssets_getPageContentChildren: "keepsAssets (getPageContentChildren P x)"
  unfolding getPageContentChildren_def
  by (auto intro!: keepsAssets_basic split: option.splits)

lemma keepsAssets_resolvePage: "keepsAssets (resolvePage P projectUrl p)"
  unfolding resolvePage_def
  by (intro keepsAssets_basic keepsAssets_getPageProperties keepsAssets_getPageContentChildren
        keepsAssets_getProcessedJcr)

lemma keepsAssets_getJcrPages: "keepsAssets (getJcrPages P pages projectUrl)"
proof (rule keepsAssetsI)
  fix s
  have "jcrAssets (snd (mapM (resolvePage P projectUrl) pages s)) = jcrAssets s"
    by (rule keepsAssetsD[OF keepsAssets_mapM[OF keepsAssets_resolvePage]])
  then show "jcrAssets (snd (getJcrPages P pages projectUrl s)) = jcrAssets s"
    by (auto simp: getJcrPages_def split: pages_cache.splits prod.splits)
qed

lemma keepsAssets_addPage: "keepsAssets (addPage p d pre z)"
  unfolding addPage_def by (intro keepsAssets_basic)

lemma keepsAssets_addAsset: "keepsAssets (addAsset P a d pre z)"
  unfolding addAsset_def Let_def
  by (intro keepsAssets_basic keepsAssets_fetchAssetData)

lemma keepsAssets_addPropertiesXml: "keepsAssets (addPropertiesXml P d pre z pages name)"
  unfolding addPropertiesXml_def
  by (auto intro!: keepsAssets_basic split: prod.splits)

lemma tripleI:
  "(\<And>s e s'. pre s \<Longrightarrow> m s = (Inl e, s') \<Longrightarrow> err s')
   \<Longrightarrow> (\<And>s a s'. pre s \<Longrightarrow> m s = (Inr a, s') \<Longrightarrow> post a s')
   \<Longrightarrow> triple pre m post err"
  unfolding triple_def by (auto split: sum.splits)

lemma triple_Inl: "triple pre m post err \<Longrightarrow> pre s \<Longrightarrow> m s = (Inl e, s') \<Longrightarrow> err s'"
  unfolding triple_def by fastforce

lemma triple_Inr: "triple pre m post err \<Longrightarrow> pre s \<Longrightarrow> m s = (Inr a, s') \<Longrightarrow> post a s'"
  unfolding triple_def by fastforce

lemma triple_andThen:
  assumes m: "triple pre m mid err" and f: "\<And>a. triple (mid a) (f a) post err"
  shows "triple pre (andThen m f) post err"
proof (rule tripleI)
  fix s e s'
  assume pre: "pre s" and run: "andThen m f s = (Inl e, s')"
  obtain r s1 where ms: "m s = (r, s1)" by (cases "m s")
  show "err s'"
  proof (cases r)
    case (Inl e1)
    then show ?thesis using triple_Inl[OF m pre] ms run by (simp add: andThen_def)
  next
    case (Inr a)
    then have "mid a s1" using triple_Inr[OF m pre] ms by simp
    moreover have "f a s1 = (Inl e, s')" using run ms Inr by (simp add: andThen_def)
    ultimately show ?thesis using triple_Inl[OF f] by blast
  qed
next
  fix s a s'
  assume pre: "pre s" and run: "andThen m f s = (Inr a, s')"
  obtain r s1 where ms: "m s = (r, s1)" by (cases "m s")
  show "post a s'"
  proof (cases r)
    case (Inl e1)
    then show ?thesis using ms run by (simp add: andThen_def)
  next
    case (Inr b)
    then have "mid b s1" using triple_Inr[OF m pre] ms by simp
    moreover have "f b s1 = (Inr a, s')" using run ms Inr by (simp add: andThen_def)
    ultimately show ?thesis using triple_Inr[OF f] by blast
  qed
qed

lemma triple_weaken:
  "triple pre m post err \<Longrightarrow> (\<And>s. pre' s \<Longrightarrow> pre s) \<Longrightarrow> (\<And>a s. post a s \<Longrightarrow> post' a s)
   \<Longrightarrow> triple pre' m post' err"
  by (rule tripleI) (blast dest: triple_Inl triple_Inr)+

text \<open>An action that leaves the asset collection alone keeps what is true of it.\<close>

lemma triple_keepsAssets:
  "keepsAssets m \<Longrightarrow> triple (\<lambda>s. A (jcrAssets s)) m (\<lambda>_ s. A (jcrAssets s)) (\<lambda>s. A (jcrAssets s))"
proof (rule tripleI)
  fix s e s'
  assume "keepsAssets m" "A (jcrAssets s)" "m s = (Inl e, s')"
  then show "A (jcrAssets s')" using keepsAssetsD[of m s] by simp
next
  fix s a s'
  assume "keepsAssets m" "A (jcrAssets s)" "m s = (Inr a, s')"
  then show "A (jcrAssets s')" using keepsAssetsD[of m s] by simp
qed

lemma triple_forEach:
  "(\<And>x. triple I (f x) (\<lambda>_. I) I) \<Longrightarrow> triple I (forEach f xs) (\<lambda>_. I) I"
proof (induction xs)
  case Nil
  then show ?case by (auto simp: triple_def return_def)
next
  case (Cons x xs)
  show ?case
    unfolding forEach.simps
    by (rule triple_andThen[OF Cons.prems]) (rule Cons.IH[OF Cons.prems])
qed

lemma unique_keepsAssets:
  "keepsAssets m \<Longrightarrow> triple uniquePaths m (\<lambda>_. uniquePaths) uniquePaths"
  using triple_keepsAssets[of m "\<lambda>as. distinct (map asset.jcrPath as)"]
  by (simp add: uniquePaths_def[abs_def])

lemma unique_collectAsset:
  "triple uniquePaths (collectAsset P projectUrl p img) (\<lambda>_. uniquePaths) uniquePaths"
proof (rule tripleI)
  fix s e s'
  assume "uniquePaths s" "collectAsset P projectUrl p img s = (Inl e, s')"
  then show "uniquePaths s'"
    by (auto simp: collectAsset_def andThen_def lift_def split: sum.splits option.splits if_splits)
next
  fix s a s'
  assume "uniquePaths s" "collectAsset P projectUrl p img s = (Inr a, s')"
  then show "uniquePaths s'"
    by (auto simp: collectAsset_def andThen_def lift_def uniquePaths_def find_None_iff
          split: sum.splits option.splits if_splits) metis
qed

lemma unique_collectAssets:
  "triple uniquePaths (collectAssets P projectUrl p) (\<lambda>_. uniquePaths) uniquePaths"
  unfolding collectAssets_def
  by (intro triple_andThen[OF unique_keepsAssets[OF keepsAssets_emit]] triple_forEach
        unique_collectAsset)

lemma unique_getJcrAssets:
  "triple uniquePaths (getJcrAssets P pages projectUrl)
     (\<lambda>as s. uniquePaths s \<and> as = jcrAssets s) uniquePaths"
proof -
  have last: "triple uniquePaths (\<lambda>s'. (Inr (jcrAssets s'), s'))
        (\<lambda>as s. uniquePaths s \<and> as = jcrAssets s) uniquePaths"
    by (simp add: triple_def)
  have chain: "triple uniquePaths
      (andThen (getJcrPages P pages projectUrl) (\<lambda>ps.
       andThen (setJcrPages ps) (\<lambda>_.
       andThen (forEach (collectAssets P projectUrl) ps) (\<lambda>_ s'.
         (Inr (jcrAssets s'), s')))))
      (\<lambda>as s. uniquePaths s \<and> as = jcrAssets s) uniquePaths"
    by (intro triple_andThen[OF unique_keepsAssets[OF keepsAssets_getJcrPages]]
          triple_andThen[OF unique_keepsAssets[OF keepsAssets_setJcrPages]]
          triple_andThen[OF triple_forEach[OF unique_collectAssets]] last)
  show ?thesis
  proof (rule tripleI)
    fix s e s'
    assume "uniquePaths s" "getJcrAssets P pages projectUrl s = (Inl e, s')"
    then show "uniquePaths s'"
      using triple_Inl[OF chain, of s e s'] by (auto simp: getJcrAssets_def split: if_splits)
  next
    fix s a s'
    assume "uniquePaths s" "getJcrAssets P pages projectUrl s = (Inr a, s')"
    then show "uniquePaths s' \<and> a = jcrAssets s'"
      using triple_Inr[OF chain, of s a s'] by (auto simp: getJcrAssets_def split: if_splits)
  qed
qed

lemma unique_getJcrAssetPaths:
  "triple uniquePaths (getJcrAssetPaths P pages projectUrl) (\<lambda>_. uniquePaths) uniquePaths"
  unfolding getJcrAssetPaths_def
  by (rule triple_andThen[OF unique_getJcrAssets]) (simp add: triple_def return_def)

lemma unique_getFilterXml:
  "triple uniquePaths (getFilterXml P pages projectUrl) (\<lambda>_. uniquePaths) uniquePaths"
  unfolding getFilterXml_def
  by (intro triple_andThen[OF unique_keepsAssets[OF keepsAssets_getJcrPages]]
        triple_andThen[OF unique_keepsAssets[OF keepsAssets_setJcrPages]]
        triple_andThen[OF unique_getJcrAssetPaths]
        unique_keepsAssets[OF keepsAssets_return])

lemma unique_addFilterXml:
  "triple uniquePaths (addFilterXml P pages projectUrl d pre z) (\<lambda>_. uniquePaths) uniquePaths"
  unfolding addFilterXml_def case_prod_beta
  by (intro triple_andThen[OF unique_getFilterXml]
        triple_andThen[OF unique_keepsAssets[OF keepsAssets_saveFile]]
        unique_keepsAssets[OF keepsAssets_return])

lemma fetchAssetData_jcrPath:
  "fetchAssetData P a s = (Inr a', s') \<Longrightarrow> asset.jcrPath a' = asset.jcrPath a"
  by (auto simp: fetchAssetData_def andThen_def emit_def return_def throw_def Let_def
        split: option.splits fetched.splits if_splits)

lemma addAsset_jcrPath:
  "addAsset P a d pre z s = (Inr (a', z'), s') \<Longrightarrow> asset.jcrPath a' = asset.jcrPath a"
  by (auto simp: addAsset_def andThen_def saveFile_def emit_def return_def Let_def
        dest: fetchAssetData_jcrPath split: prod.splits sum.splits)

lemma addAssets_paths:
  "map asset.jcrPath (jcrAssets s) = map asset.jcrPath (done @ todo) \<Longrightarrow>
   map asset.jcrPath (jcrAssets (snd (addAssets P d pre done todo z s)))
     = map asset.jcrPath (done @ todo)"
proof (induction todo arbitrary: "done" z s)
  case Nil
  then show ?case by (simp add: return_def)
next
  case (Cons a todo)
  obtain r s1 where run: "addAsset P a d pre z s = (r, s1)" by (cases "addAsset P a d pre z s")
  have keep: "jcrAssets s1 = jcrAssets s"
    using keepsAssetsD[OF keepsAssets_addAsset, of P a d pre z s] run by simp
  show ?case
  proof (cases r)
    case (Inl e)
    then show ?thesis using run keep Cons.prems by (simp add: andThen_def)
  next
    case (Inr result)
    obtain a' z' where result: "result = (a', z')" by (cases result)
    have same: "asset.jcrPath a' = asset.jcrPath a"
      using addAsset_jcrPath run Inr result by blast
    let ?s2 = "s1\<lparr>jcrAssets := done @ [a'] @ todo\<rparr>"
    have "map asset.jcrPath (jcrAssets ?s2) = map asset.jcrPath ((done @ [a']) @ todo)"
      by simp
    from Cons.IH[OF this, of z']
    show ?thesis using run Inr result same by (simp add: andThen_def)
  qed
qed

lemma unique_addAssets:
  "triple (\<lambda>s. uniquePaths s \<and> as = jcrAssets s) (addAssets P d pre [] as z)
     (\<lambda>_. uniquePaths) uniquePaths"
proof -
  have "uniquePaths (snd (addAssets P d pre [] as z s))"
    if "uniquePaths s" and "as = jcrAssets s" for s
    using addAssets_paths[of s "[]" as P d pre z] that by (simp add: uniquePaths_def)
  then show ?thesis
    by (intro tripleI) fastforce+
qed

lemma unique_createJcrPackage:
  "uniquePaths s \<or> pages \<noteq> [] \<Longrightarrow> uniquePaths (snd (createJcrPackage P d pages projectUrl s))"
proof (cases "pages = []")
  case True
  assume "uniquePaths s \<or> pages \<noteq> []"
  then show ?thesis using True by (simp add: createJcrPackage_def)
next
  case False
  let ?build = "andThen (lift (getPackageName P pages projectUrl)) (\<lambda>packageName.
         andThen (getJcrPages P pages projectUrl) (\<lambda>ps.
         andThen (setJcrPages ps) (\<lambda>_.
         andThen (foldM (\<lambda>p. addPage p d ''jcr'') ps []) (\<lambda>z1.
         andThen (foldM (\<lambda>p. addPage p d ''jcr'') (getEmptyAncestorPages ps) z1) (\<lambda>z2.
         andThen (getJcrAssets P pages projectUrl) (\<lambda>as.
         andThen (addAssets P d ''jcr'' [] as z2) (\<lambda>z3.
         andThen (addFilterXml P pages projectUrl d ''jcr'' z3) (\<lambda>z4.
         andThen (addPropertiesXml P d ''jcr'' z4 pages packageName) (\<lambda>z5.
           emit (SaveArchive d
             (''jcr'' @ ''/'' @ js_template packageName @ ''.zip'') z5))))))))))"
  have build: "triple uniquePaths ?build (\<lambda>_. uniquePaths) uniquePaths"
    by (intro triple_andThen[OF unique_keepsAssets[OF keepsAssets_lift]]
          triple_andThen[OF unique_keepsAssets[OF keepsAssets_getJcrPages]]
          triple_andThen[OF unique_keepsAssets[OF keepsAssets_setJcrPages]]
          triple_andThen[OF unique_keepsAssets[OF keepsAssets_foldM[OF keepsAssets_addPage]]]
          triple_andThen[OF unique_getJcrAssets]
          triple_andThen[OF unique_addAssets]
          triple_andThen[OF unique_addFilterXml]
          triple_andThen[OF unique_keepsAssets[OF keepsAssets_addPropertiesXml]]
          unique_keepsAssets[OF keepsAssets_emit])
  have start: "uniquePaths (init s)"
    by (simp add: uniquePaths_def init_def)
  have run: "createJcrPackage P d pages projectUrl s = ?build (init s)"
    using False by (simp add: createJcrPackage_def Let_def)
  obtain r s' where out: "?build (init s) = (r, s')" by (cases "?build (init s)")
  have "uniquePaths s'"
    using triple_Inl[OF build start, of _ s'] triple_Inr[OF build start, of _ s'] out
    by (cases r) auto
  then show ?thesis using run out by simp
qed

text \<open>
  Claim C8. In every build of at least one page, whether it ends or throws, no two
  assets of the collection the build leaves have the same \<open>jcrPath\<close>: the cache is
  emptied first, an asset is pushed only when \<open>find\<close> meets none with its \<open>jcrPath\<close>,
  and \<open>addAsset\<close> changes \<open>blob\<close> and \<open>mimeType\<close> only.
\<close>

theorem C8_assets_unique:
  assumes "pages \<noteq> []"
  shows "distinct (map asset.jcrPath
           (jcrAssets (snd (createJcrPackage P dirHandle pages projectUrl s))))"
  using unique_createJcrPackage[of s pages P dirHandle projectUrl] assms
  by (simp add: uniquePaths_def)

theorem C8_assets_unique_witness:
  "[examplePage] \<noteq> []
   \<and> distinct (map asset.jcrPath (jcrAssets (snd (createJcrPackage
         (examplePlatform goodResponse) ''dir'' [examplePage] exampleProject emptyState))))
   \<and> map asset.jcrPath (jcrAssets (snd (createJcrPackage
         (examplePlatform goodResponse) ''dir'' [examplePage] exampleProject emptyState)))
       = [Some ''/content/dam/repo/media/a.png'']"
proof -
  have pages: "[examplePage] \<noteq> []" by simp
  have "map asset.jcrPath (jcrAssets (snd (createJcrPackage
         (examplePlatform goodResponse) ''dir'' [examplePage] exampleProject emptyState)))
       = [Some ''/content/dam/repo/media/a.png'']"
    by code_simp
  then show ?thesis
    using C8_assets_unique[OF pages, of "examplePlatform goodResponse" "''dir''"
        exampleProject emptyState]
    by simp
qed

section \<open>Fetching the bytes of an asset\<close>

lemma fetchAssetData_not_ok:
  assumes "asset.url a = Some u" and "fetch P (href u) = Response res" and "\<not> ok res"
  shows "fetchAssetData P a s =
           (Inr (a\<lparr>blob := None,
                   mimeType := getMimeTypeFromExtension
                                 (js_template (js_pop (js_split CHR ''.'' (pathname u))))\<rparr>),
            s\<lparr>trace := trace s @ [Fetch (href u),
                 ConsoleError (''Failed to fetch image: '' @ string_of_nat (status res))]\<rparr>)"
  using assms by (simp add: fetchAssetData_def andThen_def emit_def return_def Let_def)

lemma fetchAssetData_rejected:
  assumes "asset.url a = Some u" and "fetch P (href u) = Rejected err"
  shows "fetchAssetData P a s =
           (Inl TypeError,
            s\<lparr>trace := trace s @ [Fetch (href u),
                 ConsoleError (''Fetch failed with error: '' @ err)]\<rparr>)"
  using assms by (simp add: fetchAssetData_def andThen_def emit_def throw_def Let_def)

lemma addAsset_rejected:
  assumes "asset.url a = Some u" and "fetch P (href u) = Rejected err"
  shows "fst (addAsset P a dirHandle prefix' z s) = Inl TypeError"
  using fetchAssetData_rejected[OF assms, of s] by (simp add: addAsset_def andThen_def)

text \<open>
  Claim C3. When the server answers 404 the build ends, the failure is logged and the
  asset is saved with no bytes, with everything else of the package. When \<open>fetch\<close>
  rejects (a network failure) the failure is logged too, but \<open>fetchAssetData\<close> then
  throws and the build stops with a \<open>TypeError\<close>: the page and its ancestors are
  saved, the asset, the filter, the manifest and the archive are not.
\<close>

theorem C3_network_failure_aborts:
  "map_prod id report (createJcrPackage (examplePlatform notFound) ''dir'' [examplePage]
       exampleProject emptyState)
     = (Inr (),
        [''jcr/jcr_root/content/repo/media/b/.content.xml'',
         ''jcr/jcr_root/content/repo/.content.xml'',
         ''jcr/jcr_root/content/repo/media/.content.xml'',
         ''jcr/jcr_root/content/dam/repo/media/a.png/.content.xml'',
         ''jcr/jcr_root/content/dam/repo/media/a.png/_jcr_content/renditions/original'',
         ''jcr/META-INF/vault/filter.xml'',
         ''jcr/META-INF/vault/properties.xml'',
         ''jcr/repo_b.zip''],
        [''jcr/jcr_root/content/dam/repo/media/a.png/_jcr_content/renditions/original''],
        [''Failed to fetch image: 404''])
   \<and> map_prod id report (createJcrPackage (examplePlatform networkFailure) ''dir'' [examplePage]
       exampleProject emptyState)
     = (Inl TypeError,
        [''jcr/jcr_root/content/repo/media/b/.content.xml'',
         ''jcr/jcr_root/content/repo/.content.xml'',
         ''jcr/jcr_root/content/repo/media/.content.xml''],
        [],
        [''Fetch failed with error: TypeError: Failed to fetch''])"
  by code_simp

section \<open>Filter document\<close>

lemma quoteFree_append [simp]: "quoteFree (a @ b) = (quoteFree a \<and> quoteFree b)"
  by (auto simp: quoteFree_def)

lemma quoteFree_Nil [simp]: "quoteFree []"
  by (simp add: quoteFree_def)

lemma emitsI:
  "(\<And>buf. quoteFree buf \<Longrightarrow>
      \<exists>buf'. quoteFree buf' \<and>
         (\<forall>rest. rootValues (js_split (CHR 0x27) (buf @ x @ rest))
                   = rs @ rootValues (js_split (CHR 0x27) (buf' @ rest))))
   \<Longrightarrow> emits x rs"
  by (simp add: emits_def)

lemma emits_Nil: "emits [] []"
  by (rule emitsI) auto

lemma emits_text: "quoteFree t \<Longrightarrow> emits t []"
proof (rule emitsI)
  fix buf
  assume "quoteFree t" "quoteFree buf"
  then have "quoteFree (buf @ t) \<and>
      (\<forall>rest. rootValues (js_split (CHR 0x27) (buf @ t @ rest))
                = [] @ rootValues (js_split (CHR 0x27) ((buf @ t) @ rest)))"
    by simp
  then show "\<exists>buf'. quoteFree buf' \<and>
      (\<forall>rest. rootValues (js_split (CHR 0x27) (buf @ t @ rest))
                = [] @ rootValues (js_split (CHR 0x27) (buf' @ rest)))"
    by blast
qed

lemma emits_append:
  assumes x: "emits x rs" and y: "emits y rs'"
  shows "emits (x @ y) (rs @ rs')"
proof (rule emitsI)
  fix buf
  assume "quoteFree buf"
  then obtain buf1 where b1: "quoteFree buf1"
    and x1: "\<And>rest. rootValues (js_split (CHR 0x27) (buf @ x @ rest))
                     = rs @ rootValues (js_split (CHR 0x27) (buf1 @ rest))"
    using x unfolding emits_def by blast
  obtain buf2 where b2: "quoteFree buf2"
    and y2: "\<And>rest. rootValues (js_split (CHR 0x27) (buf1 @ y @ rest))
                     = rs' @ rootValues (js_split (CHR 0x27) (buf2 @ rest))"
    using y b1 unfolding emits_def by blast
  have "\<forall>rest. rootValues (js_split (CHR 0x27) (buf @ (x @ y) @ rest))
                = (rs @ rs') @ rootValues (js_split (CHR 0x27) (buf2 @ rest))"
    using x1 y2 by simp
  then show "\<exists>buf'. quoteFree buf' \<and>
      (\<forall>rest. rootValues (js_split (CHR 0x27) (buf @ (x @ y) @ rest))
                = (rs @ rs') @ rootValues (js_split (CHR 0x27) (buf' @ rest)))"
    using b2 by blast
qed

text \<open>An attribute: its name and what precedes it, then the value between quotes.\<close>

lemma emits_attribute:
  assumes name: "quoteFree name" and v: "quoteFree v"
    and root: "\<And>buf. suffix '' root='' (buf @ name) = b"
  shows "emits (name @ [CHR 0x27] @ v @ [CHR 0x27]) (if b then [v] else [])"
proof (rule emitsI)
  fix buf
  assume buf: "quoteFree buf"
  have "rootValues (js_split (CHR 0x27) (buf @ (name @ [CHR 0x27] @ v @ [CHR 0x27]) @ rest))
          = (if b then [v] else []) @ rootValues (js_split (CHR 0x27) ([] @ rest))" for rest
  proof -
    have "js_split (CHR 0x27) (buf @ (name @ [CHR 0x27] @ v @ [CHR 0x27]) @ rest)
            = js_split (CHR 0x27) ((buf @ name) @ CHR 0x27 # (v @ CHR 0x27 # rest))"
      by simp
    also have "\<dots> = (buf @ name) # js_split (CHR 0x27) (v @ CHR 0x27 # rest)"
      using buf name by (intro js_split_sep) (simp add: quoteFree_def)
    also have "\<dots> = (buf @ name) # v # js_split (CHR 0x27) rest"
      using v by (simp add: js_split_sep quoteFree_def)
    finally show ?thesis using root[of buf] by simp
  qed
  then show "\<exists>buf'. quoteFree buf' \<and>
      (\<forall>rest. rootValues (js_split (CHR 0x27) (buf @ (name @ [CHR 0x27] @ v @ [CHR 0x27]) @ rest))
                = (if b then [v] else []) @ rootValues (js_split (CHR 0x27) (buf' @ rest)))"
    using quoteFree_Nil by blast
qed

lemma suffix_short: "length ys \<le> length zs \<Longrightarrow> suffix ys (xs @ zs) = suffix ys zs"
  by (auto simp: suffix_append)

lemma emits_root:
  "quoteFree t \<Longrightarrow> quoteFree v \<Longrightarrow> emits ((t @ '' root='') @ [CHR 0x27] @ v @ [CHR 0x27]) [v]"
  using emits_attribute[of "t @ '' root=''" v True]
  by (simp add: quoteFree_def suffix_def)

lemma emits_other:
  assumes "quoteFree name" and "quoteFree v"
    and "6 \<le> length name" and "\<not> suffix '' root='' name"
  shows "emits (name @ [CHR 0x27] @ v @ [CHR 0x27]) []"
  using emits_attribute[of name v False] assms by (simp add: suffix_short)

lemma emits_concat_map:
  "(\<And>x. x \<in> set xs \<Longrightarrow> emits (f x) (g x)) \<Longrightarrow> emits (concat (map f xs)) (concat (map g xs))"
  by (induction xs) (auto intro: emits_Nil emits_append)

lemma emits_join:
  assumes "quoteFree sep" and "\<And>x. x \<in> set xs \<Longrightarrow> emits (f x) (g x)"
  shows "emits (js_join sep (map f xs)) (concat (map g xs))"
  using assms(2)
proof (induction xs)
  case Nil
  then show ?case by (simp add: emits_Nil)
next
  case (Cons x xs)
  show ?case
  proof (cases xs)
    case Nil
    then show ?thesis using Cons.prems[of x] by simp
  next
    case (Cons y ys)
    have tail: "emits (js_join sep (map f xs)) (concat (map g xs))"
      using Cons.IH Cons.prems by simp
    have "emits (f x @ sep @ js_join sep (map f xs)) (g x @ [] @ concat (map g xs))"
      by (intro emits_append emits_text assms(1) tail Cons.prems) simp
    then show ?thesis using Cons by simp
  qed
qed

lemma emits_rootTargets: "emits x rs \<Longrightarrow> rootTargets x = rs"
proof -
  assume "emits x rs"
  then obtain buf' where "quoteFree buf'"
    and "\<And>rest. rootValues (js_split (CHR 0x27) ([] @ x @ rest))
                 = rs @ rootValues (js_split (CHR 0x27) (buf' @ rest))"
    unfolding emits_def using quoteFree_Nil by blast
  from this(2)[of "[]"] this(1) show ?thesis
    by (simp add: rootTargets_def js_split_none quoteFree_def)
qed

lemma foldl_assetFilter:
  "foldl assetFilter acc paths = acc @ concat (map (assetFilter []) paths)"
  by (induction paths arbitrary: acc) (simp_all add: assetFilter_def)

lemma foldl_pageFilter:
  "foldl pageFilter acc ps = acc @ concat (map (pageFilter []) ps)"
  by (induction ps arbitrary: acc) (simp_all add: pageFilter_def Let_def)

lemma quoteFree_nl: "quoteFree nl"
  by (simp add: nl_def quoteFree_def)

lemma emits_assetFilter:
  assumes "quoteFree path'"
  shows "emits (assetFilter [] path') [path']"
proof -
  have shape: "assetFilter [] path'
      = ((''<filter'' @ '' root='') @ [CHR 0x27] @ path' @ [CHR 0x27]) @ (''/>'' @ nl)"
    by (simp add: assetFilter_def)
  have "emits (((''<filter'' @ '' root='') @ [CHR 0x27] @ path' @ [CHR 0x27]) @ (''/>'' @ nl))
          ([path'] @ [])"
    by (intro emits_append emits_root emits_text assms) (simp_all add: quoteFree_def nl_def)
  then show ?thesis by (simp only: shape append_Nil2)
qed

lemma emits_include:
  assumes "quoteFree j" and "quoteFree prop"
  shows "emits (''<include pattern='' @ [CHR 0x27] @ j @ ''/jcr:content/'' @ prop
            @ [CHR 0x27] @ '' matchProperties='' @ [CHR 0x27] @ ''true'' @ [CHR 0x27] @ ''/>'') []"
proof -
  have shape: "''<include pattern='' @ [CHR 0x27] @ j @ ''/jcr:content/'' @ prop
            @ [CHR 0x27] @ '' matchProperties='' @ [CHR 0x27] @ ''true'' @ [CHR 0x27] @ ''/>''
      = (''<include pattern='' @ [CHR 0x27] @ (j @ ''/jcr:content/'' @ prop) @ [CHR 0x27])
        @ ('' matchProperties='' @ [CHR 0x27] @ ''true'' @ [CHR 0x27]) @ ''/>''"
    by simp
  have "emits ((''<include pattern='' @ [CHR 0x27] @ (j @ ''/jcr:content/'' @ prop) @ [CHR 0x27])
        @ ('' matchProperties='' @ [CHR 0x27] @ ''true'' @ [CHR 0x27]) @ ''/>'') ([] @ [] @ [])"
    using assms
    by (intro emits_append emits_other emits_text)
       (simp_all add: quoteFree_def suffix_to_prefix)
  then show ?thesis by (simp only: shape append_Nil2)
qed

lemma emits_child:
  assumes "quoteFree j" and "quoteFree child"
  shows "emits (''<filter root='' @ [CHR 0x27] @ j @ ''/jcr:content/'' @ child
            @ [CHR 0x27] @ ''/>'') [j @ ''/jcr:content/'' @ child]"
proof -
  have shape: "''<filter root='' @ [CHR 0x27] @ j @ ''/jcr:content/'' @ child @ [CHR 0x27] @ ''/>''
      = ((''<filter'' @ '' root='') @ [CHR 0x27] @ (j @ ''/jcr:content/'' @ child) @ [CHR 0x27])
        @ ''/>''"
    by simp
  have "emits (((''<filter'' @ '' root='') @ [CHR 0x27] @ (j @ ''/jcr:content/'' @ child) @ [CHR 0x27])
        @ ''/>'') ([j @ ''/jcr:content/'' @ child] @ [])"
    using assms
    by (intro emits_append emits_root emits_text) (simp_all add: quoteFree_def)
  then show ?thesis by (simp only: shape append_Nil2)
qed

lemma emits_pageFilter:
  assumes j: "quoteFree (page_node.jcrPath p)"
    and props: "\<And>prop. prop \<in> set (pageProperties p) \<Longrightarrow> quoteFree prop"
    and kids: "\<And>child. child \<in> set (pageContentChildren p) \<Longrightarrow> quoteFree child"
  shows "emits (pageFilter [] p) (pageRoots p)"
proof -
  let ?j = "page_node.jcrPath p"
  let ?incl = "\<lambda>prop. ''<include pattern='' @ [CHR 0x27] @ ?j @ ''/jcr:content/'' @ prop
            @ [CHR 0x27] @ '' matchProperties='' @ [CHR 0x27] @ ''true'' @ [CHR 0x27] @ ''/>''"
  let ?kid = "\<lambda>child. ''<filter root='' @ [CHR 0x27] @ ?j @ ''/jcr:content/'' @ child
            @ [CHR 0x27] @ ''/>''"
  have shape: "pageFilter [] p
      = ((''<filter'' @ '' root='') @ [CHR 0x27] @ (?j @ ''/jcr:content'') @ [CHR 0x27])
        @ (''>'' @ nl) @ js_join nl (map ?incl (pageProperties p))
        @ (nl @ ''</filter>'' @ nl) @ js_join nl (map ?kid (pageContentChildren p)) @ nl"
    by (simp add: pageFilter_def Let_def)
  have includeLines: "emits (js_join nl (map ?incl (pageProperties p)))
        (concat (map (\<lambda>prop. []) (pageProperties p)))"
    by (rule emits_join[OF quoteFree_nl]) (rule emits_include[OF j], rule props)
  have childFilters: "emits (js_join nl (map ?kid (pageContentChildren p)))
        (concat (map (\<lambda>child. [?j @ ''/jcr:content/'' @ child]) (pageContentChildren p)))"
    by (rule emits_join[OF quoteFree_nl]) (rule emits_child[OF j], rule kids)
  have blockStart: "emits ((''<filter'' @ '' root='') @ [CHR 0x27] @ (?j @ ''/jcr:content'') @ [CHR 0x27])
        [?j @ ''/jcr:content'']"
    using j by (intro emits_root) (simp_all add: quoteFree_def)
  have t1: "emits (''>'' @ nl) []" and t2: "emits (nl @ ''</filter>'' @ nl) []" and t3: "emits nl []"
    by (rule emits_text, simp add: quoteFree_def nl_def)+
  have "emits (((''<filter'' @ '' root='') @ [CHR 0x27] @ (?j @ ''/jcr:content'') @ [CHR 0x27])
        @ (''>'' @ nl) @ js_join nl (map ?incl (pageProperties p))
        @ (nl @ ''</filter>'' @ nl) @ js_join nl (map ?kid (pageContentChildren p)) @ nl)
      ([?j @ ''/jcr:content''] @ [] @ concat (map (\<lambda>prop. []) (pageProperties p))
        @ [] @ concat (map (\<lambda>child. [?j @ ''/jcr:content/'' @ child]) (pageContentChildren p)) @ [])"
    by (intro emits_append blockStart t1 includeLines t2 childFilters t3)
  moreover have "[?j @ ''/jcr:content''] @ [] @ concat (map (\<lambda>prop. []) (pageProperties p))
        @ [] @ concat (map (\<lambda>child. [?j @ ''/jcr:content/'' @ child]) (pageContentChildren p)) @ []
      = pageRoots p"
    by (simp add: pageRoots_def)
  ultimately show ?thesis by (simp only: shape)
qed

lemma filterXml_roots:
  assumes pages: "\<And>p. p \<in> set ps \<Longrightarrow>
        quoteFree (page_node.jcrPath p)
        \<and> (\<forall>prop\<in>set (pageProperties p). quoteFree prop)
        \<and> (\<forall>child\<in>set (pageContentChildren p). quoteFree child)"
    and assets: "\<And>path'. path' \<in> set paths \<Longrightarrow> quoteFree path'"
  shows "rootTargets (filterXml ps paths) = concat (map pageRoots ps) @ paths"
proof -
  have shape: "filterXml ps paths
      = (''<?xml version='' @ [CHR 0x27] @ ''1.0'' @ [CHR 0x27])
        @ ('' encoding='' @ [CHR 0x27] @ ''UTF-8'' @ [CHR 0x27])
        @ ((''?>'' @ nl @ ''    <workspaceFilter version='') @ [CHR 0x27] @ ''1.0'' @ [CHR 0x27])
        @ (''>'' @ nl @ ''      '') @ concat (map (pageFilter []) ps)
        @ (nl @ ''      '') @ concat (map (assetFilter []) paths)
        @ (nl @ ''    </workspaceFilter>'')"
    by (simp add: filterXml_def Let_def foldl_pageFilter foldl_assetFilter)
  have pageBlocks: "emits (concat (map (pageFilter []) ps)) (concat (map pageRoots ps))"
  proof (rule emits_concat_map)
    fix p
    assume "p \<in> set ps"
    from pages[OF this] show "emits (pageFilter [] p) (pageRoots p)"
      by (intro emits_pageFilter) auto
  qed
  have assetBlocks: "emits (concat (map (assetFilter []) paths)) (concat (map (\<lambda>path'. [path']) paths))"
    by (rule emits_concat_map) (rule emits_assetFilter, rule assets)
  have a1: "emits (''<?xml version='' @ [CHR 0x27] @ ''1.0'' @ [CHR 0x27]) []"
    by (rule emits_other) (simp_all add: quoteFree_def suffix_to_prefix)
  have a2: "emits ('' encoding='' @ [CHR 0x27] @ ''UTF-8'' @ [CHR 0x27]) []"
    by (rule emits_other) (simp_all add: quoteFree_def suffix_to_prefix)
  have a3: "emits ((''?>'' @ nl @ ''    <workspaceFilter version='') @ [CHR 0x27] @ ''1.0'' @ [CHR 0x27]) []"
    by (rule emits_other) (simp_all add: quoteFree_def nl_def suffix_to_prefix)
  have t1: "emits (''>'' @ nl @ ''      '') []" and t2: "emits (nl @ ''      '') []"
    and t3: "emits (nl @ ''    </workspaceFilter>'') []"
    by (rule emits_text, simp add: quoteFree_def nl_def)+
  have "emits ((''<?xml version='' @ [CHR 0x27] @ ''1.0'' @ [CHR 0x27])
        @ ('' encoding='' @ [CHR 0x27] @ ''UTF-8'' @ [CHR 0x27])
        @ ((''?>'' @ nl @ ''    <workspaceFilter version='') @ [CHR 0x27] @ ''1.0'' @ [CHR 0x27])
        @ (''>'' @ nl @ ''      '') @ concat (map (pageFilter []) ps)
        @ (nl @ ''      '') @ concat (map (assetFilter []) paths)
        @ (nl @ ''    </workspaceFilter>''))
      ([] @ [] @ [] @ [] @ concat (map pageRoots ps) @ [] @ concat (map (\<lambda>path'. [path']) paths) @ [])"
    by (intro emits_append a1 a2 a3 t1 pageBlocks t2 assetBlocks t3)
  then have "emits (filterXml ps paths) (concat (map pageRoots ps) @ paths)"
    by (simp only: shape) simp
  then show ?thesis by (rule emits_rootTargets)
qed

lemma getJcrAssets_result:
  "getJcrAssets P pages projectUrl s = (Inr as, s') \<Longrightarrow> as = jcrAssets s'"
  by (auto simp: getJcrAssets_def andThen_def split: if_splits sum.splits prod.splits)

lemma getFilterXml_result:
  assumes "getFilterXml P pages projectUrl s = (Inr (filterXmlPath, xml'), s')"
  shows "\<exists>ps s1. getJcrPages P pages projectUrl s = (Inr ps, s1)
           \<and> xml' = filterXml ps (assetPaths (jcrAssets s'))"
proof -
  obtain r s1 where pagesRun: "getJcrPages P pages projectUrl s = (r, s1)"
    by (cases "getJcrPages P pages projectUrl s")
  obtain ps where r: "r = Inr ps"
    using assms pagesRun by (cases r) (auto simp: getFilterXml_def andThen_def)
  let ?s2 = "s1\<lparr>jcrPages := Array ps\<rparr>"
  obtain r2 s3 where assetsRun: "getJcrAssets P pages projectUrl ?s2 = (r2, s3)"
    by (cases "getJcrAssets P pages projectUrl ?s2")
  have rest: "xml' = filterXml ps (assetPaths (jcrAssets s'))"
  proof (cases r2)
    case (Inl e)
    then show ?thesis
      using assms pagesRun r assetsRun
      by (simp add: getFilterXml_def andThen_def setJcrPages_def getJcrAssetPaths_def)
  next
    case (Inr as)
    then have "as = jcrAssets s3" using getJcrAssets_result assetsRun by blast
    then show ?thesis
      using assms pagesRun r assetsRun Inr
      by (auto simp: getFilterXml_def andThen_def setJcrPages_def getJcrAssetPaths_def return_def)
  qed
  show ?thesis using pagesRun r rest by blast
qed

lemma set_assetPaths:
  "set (assetPaths as)
     = {path'. \<exists>a\<in>set as. add a \<and> asset.jcrPath a = Some path' \<and> path' \<noteq> []}"
  by (auto simp: assetPaths_def getResourcePaths_def js_truthy_def split: option.splits if_splits)

text \<open>
  Claim C1, as amended. When \<open>getFilterXml\<close> returns a document, and no resolved page
  path, property name, child name or asset path has a single quote in it, the
  \<open>root=\<close> targets of the document are, in order: for each resolved page its
  \<open>jcrPath\<close> followed by \<open>/jcr:content\<close>, then that path followed by \<open>/\<close> and the
  name of each child of the content node; then the \<open>jcrPath\<close> of each asset of the
  collection with \<open>add\<close> true and a \<open>jcrPath\<close>. There is nothing else and nothing is
  missing.
\<close>

theorem C1_filter_roots:
  assumes "getFilterXml P pages projectUrl s = (Inr (filterXmlPath, xml'), s')"
    and "getJcrPages P pages projectUrl s = (Inr ps, s1)"
    and "\<forall>p\<in>set ps. quoteFree (page_node.jcrPath p)
           \<and> (\<forall>prop\<in>set (pageProperties p). quoteFree prop)
           \<and> (\<forall>child\<in>set (pageContentChildren p). quoteFree child)"
    and "\<forall>path'\<in>set (assetPaths (jcrAssets s')). quoteFree path'"
  shows "rootTargets xml' = concat (map pageRoots ps) @ assetPaths (jcrAssets s')"
proof -
  have "xml' = filterXml ps (assetPaths (jcrAssets s'))"
    using getFilterXml_result[OF assms(1)] assms(2) by auto
  then show ?thesis
    using filterXml_roots[of ps "assetPaths (jcrAssets s')"] assms(3,4) by blast
qed

theorem C1_filter_roots_witness:
  "rootTargets (snd (projr (fst (getFilterXml (examplePlatform goodResponse) [examplePage]
       exampleProject emptyState))))
     = concat (map pageRoots (projr (fst (getJcrPages (examplePlatform goodResponse) [examplePage]
         exampleProject emptyState))))
       @ assetPaths (jcrAssets (snd (getFilterXml (examplePlatform goodResponse) [examplePage]
           exampleProject emptyState)))
   \<and> rootTargets (snd (projr (fst (getFilterXml (examplePlatform goodResponse) [examplePage]
       exampleProject emptyState))))
     = [''/content/repo/media/b/jcr:content'',
        ''/content/repo/media/b/jcr:content/hero'',
        ''/content/repo/media/b/jcr:content/teaser'',
        ''/content/repo/media/b/jcr:content/logo'',
        ''/content/dam/repo/media/a.png'']"
proof -
  let ?R = "getFilterXml (examplePlatform goodResponse) [examplePage] exampleProject emptyState"
  let ?G = "getJcrPages (examplePlatform goodResponse) [examplePage] exampleProject emptyState"
  have document: "map_prod (map_sum id (rootTargets \<circ> snd)) (assetPaths \<circ> jcrAssets) ?R
     = (Inr [''/content/repo/media/b/jcr:content'',
             ''/content/repo/media/b/jcr:content/hero'',
             ''/content/repo/media/b/jcr:content/teaser'',
             ''/content/repo/media/b/jcr:content/logo'',
             ''/content/dam/repo/media/a.png''],
        [''/content/dam/repo/media/a.png''])"
    by code_simp
  have resolved: "case fst ?G of
        Inl _ \<Rightarrow> False
      | Inr ps \<Rightarrow> \<forall>p\<in>set ps. quoteFree (page_node.jcrPath p)
           \<and> (\<forall>prop\<in>set (pageProperties p). quoteFree prop)
           \<and> (\<forall>child\<in>set (pageContentChildren p). quoteFree child)"
    by code_simp
  have filterOk: "\<not> isl (fst ?R)"
    using arg_cong[OF document, of fst] by (cases "fst ?R") simp_all
  have run: "?R = (Inr (fst (projr (fst ?R)), snd (projr (fst ?R))), snd ?R)"
    using filterOk by (simp add: prod_eq_iff)
  have roots: "rootTargets (snd (projr (fst ?R)))
     = [''/content/repo/media/b/jcr:content'',
        ''/content/repo/media/b/jcr:content/hero'',
        ''/content/repo/media/b/jcr:content/teaser'',
        ''/content/repo/media/b/jcr:content/logo'',
        ''/content/dam/repo/media/a.png'']"
    using arg_cong[OF document, of fst] by (cases "fst ?R") simp_all
  have pages: "?G = (Inr (projr (fst ?G)), snd ?G)"
    using resolved by (cases "fst ?G") (simp_all add: prod_eq_iff)
  have safePages: "\<forall>p\<in>set (projr (fst ?G)). quoteFree (page_node.jcrPath p)
           \<and> (\<forall>prop\<in>set (pageProperties p). quoteFree prop)
           \<and> (\<forall>child\<in>set (pageContentChildren p). quoteFree child)"
    using resolved by (cases "fst ?G") simp_all
  have assets: "assetPaths (jcrAssets (snd ?R)) = [''/content/dam/repo/media/a.png'']"
    using arg_cong[OF document, of snd] by simp
  have safeAssets: "\<forall>path'\<in>set (assetPaths (jcrAssets (snd ?R))). quoteFree path'"
    unfolding assets by (simp add: quoteFree_def)
  show ?thesis
    using C1_filter_roots[OF run pages safePages safeAssets] roots by simp
qed

text \<open>
  Claim C1 as stated fails: for the example page the targets are its content node and
  the three children of it, and the asset; the page path \<open>/content/repo/media/b\<close> is
  not among them.
\<close>

theorem C1_filter_roots_counterexample:
  "map_prod (map_sum id (rootTargets \<circ> snd)) packagedPaths
       (getFilterXml (examplePlatform goodResponse) [examplePage] exampleProject emptyState)
     = (Inr [''/content/repo/media/b/jcr:content'',
             ''/content/repo/media/b/jcr:content/hero'',
             ''/content/repo/media/b/jcr:content/teaser'',
             ''/content/repo/media/b/jcr:content/logo'',
             ''/content/dam/repo/media/a.png''],
        [''/content/repo/media/b''],
        [''/content/dam/repo/media/a.png''])
   \<and> set [''/content/repo/media/b/jcr:content'',
          ''/content/repo/media/b/jcr:content/hero'',
          ''/content/repo/media/b/jcr:content/teaser'',
          ''/content/repo/media/b/jcr:content/logo'',
          ''/content/dam/repo/media/a.png'']
     \<noteq> set [''/content/repo/media/b''] \<union> set [''/content/dam/repo/media/a.png'']"
  by code_simp

section \<open>Cache: one pass over the pages, one over their references\<close>

lemma andThen_Inr:
  "andThen m f s = (Inr b, s') \<Longrightarrow> \<exists>a s1. m s = (Inr a, s1) \<and> f a s1 = (Inr b, s')"
  by (auto simp: andThen_def split: prod.splits sum.splits)

lemma quietI:
  "(\<And>s x. jcrPages (snd (m s)) = jcrPages s
      \<and> parseCount x (trace (snd (m s))) = parseCount x (trace s)) \<Longrightarrow> quiet m"
  by (simp add: quiet_def)

lemma quietD:
  "quiet m \<Longrightarrow> m s = (r, s') \<Longrightarrow>
   jcrPages s' = jcrPages s \<and> parseCount x (trace s') = parseCount x (trace s)"
  by (auto simp: quiet_def dest!: spec[of _ s])

lemma quiet_andThen:
  assumes "quiet m" and "\<And>a. quiet (f a)"
  shows "quiet (andThen m f)"
proof (rule quietI)
  fix s x
  obtain r s1 where m: "m s = (r, s1)" by (cases "m s")
  note first = quietD[OF assms(1) m]
  show "jcrPages (snd (andThen m f s)) = jcrPages s
      \<and> parseCount x (trace (snd (andThen m f s))) = parseCount x (trace s)"
  proof (cases r)
    case (Inl e)
    then show ?thesis using m first by (simp add: andThen_def)
  next
    case (Inr a)
    obtain r2 s2 where f: "f a s1 = (r2, s2)" by (cases "f a s1")
    from quietD[OF assms(2) f] first show ?thesis using m Inr f by (simp add: andThen_def)
  qed
qed

lemma quiet_return: "quiet (return a)"
  by (simp add: quiet_def return_def)

lemma quiet_throw: "quiet (throw e)"
  by (simp add: quiet_def throw_def)

lemma quiet_lift: "quiet (lift r)"
  by (simp add: quiet_def lift_def)

lemma quiet_emit: "(\<And>y. ev \<noteq> Parse y) \<Longrightarrow> quiet (emit ev)"
  by (simp add: quiet_def emit_def parseCount_def)

lemma quiet_saveFile: "quiet (saveFile d p c)"
  by (simp add: saveFile_def quiet_emit)

lemmas quiet_basic =
  quiet_andThen quiet_return quiet_throw quiet_lift quiet_saveFile

lemma quiet_mapM: "(\<And>y. quiet (f y)) \<Longrightarrow> quiet (mapM f ys)"
  by (induction ys) (auto intro!: quiet_basic)

lemma quiet_forEach: "(\<And>y. quiet (f y)) \<Longrightarrow> quiet (forEach f ys)"
  by (induction ys) (auto intro!: quiet_basic)

lemma quiet_foldM: "(\<And>y z. quiet (f y z)) \<Longrightarrow> quiet (foldM f ys z)"
  by (induction ys arbitrary: z) (auto intro!: quiet_basic)

lemma quiet_fetchAssetData: "quiet (fetchAssetData P a)"
  unfolding fetchAssetData_def Let_def
  by (auto intro!: quiet_basic quiet_emit split: option.splits fetched.splits)

lemma quiet_processImage: "quiet (processImage P pageUrl projectUrl img)"
  unfolding processImage_def Let_def
  by (auto intro!: quiet_basic quiet_fetchAssetData split: option.splits)

lemma quiet_addPage: "quiet (addPage p d pre z)"
  unfolding addPage_def by (intro quiet_basic)

lemma quiet_addAsset: "quiet (addAsset P a d pre z)"
  unfolding addAsset_def Let_def
  by (intro quiet_basic quiet_fetchAssetData)

lemma quiet_addPropertiesXml: "quiet (addPropertiesXml P d pre z pages name)"
  unfolding addPropertiesXml_def
  by (auto intro!: quiet_basic split: prod.splits)

lemma quiet_collectAsset: "quiet (collectAsset P projectUrl p img)"
  by (rule quietI)
     (auto simp: collectAsset_def andThen_def lift_def split: sum.splits option.splits)

lemma quiet_addAssets: "quiet (addAssets P d pre done todo z)"
proof (induction todo arbitrary: "done" z)
  case Nil
  then show ?case by (simp add: quiet_return)
next
  case (Cons a todo)
  show ?case
  proof (rule quietI)
    fix s x
    obtain r s1 where run: "addAsset P a d pre z s = (r, s1)" by (cases "addAsset P a d pre z s")
    note first = quietD[OF quiet_addAsset run]
    show "jcrPages (snd (addAssets P d pre done (a # todo) z s)) = jcrPages s
        \<and> parseCount x (trace (snd (addAssets P d pre done (a # todo) z s)))
            = parseCount x (trace s)"
    proof (cases r)
      case (Inl e)
      then show ?thesis using run first by (simp add: andThen_def)
    next
      case (Inr result)
      obtain a' z' where result: "result = (a', z')" by (cases result)
      let ?s2 = "s1\<lparr>jcrAssets := done @ [a'] @ todo\<rparr>"
      obtain r3 s3 where rest: "addAssets P d pre (done @ [a']) todo z' ?s2 = (r3, s3)"
        by (cases "addAssets P d pre (done @ [a']) todo z' ?s2")
      from quietD[OF Cons.IH rest] first show ?thesis
        using run Inr result rest by (simp add: andThen_def)
    qed
  qed
qed

lemma parsingI:
  "(\<And>s a s' x. m s = (Inr a, s') \<Longrightarrow>
      jcrPages s' = jcrPages s \<and> parseCount x (trace s') = parseCount x (trace s) + k x)
   \<Longrightarrow> parsing m k"
  unfolding parsing_def by blast

lemma parsingD:
  "parsing m k \<Longrightarrow> m s = (Inr a, s') \<Longrightarrow>
   jcrPages s' = jcrPages s \<and> parseCount x (trace s') = parseCount x (trace s) + k x"
  unfolding parsing_def by blast

lemma parsing_quiet: "quiet m \<Longrightarrow> parsing m (\<lambda>_. 0)"
  by (rule parsingI) (use quietD in fastforce)

lemma parsing_andThen:
  assumes "parsing m k" and "\<And>a. parsing (f a) k'"
  shows "parsing (andThen m f) (\<lambda>x. k x + k' x)"
proof (rule parsingI)
  fix s b s' x
  assume "andThen m f s = (Inr b, s')"
  from andThen_Inr[OF this]
  obtain a s1 where m: "m s = (Inr a, s1)" and f: "f a s1 = (Inr b, s')"
    by auto
  from parsingD[OF assms(1) m, of x] parsingD[OF assms(2) f, of x]
  show "jcrPages s' = jcrPages s
      \<and> parseCount x (trace s') = parseCount x (trace s) + (k x + k' x)"
    by simp
qed

lemma parsing_emit: "parsing (emit (Parse y)) (\<lambda>x. if x = y then 1 else 0)"
  by (rule parsingI) (auto simp: emit_def parseCount_def)

lemma parsing_eq: "parsing m k \<Longrightarrow> (\<And>x. k x = k' x) \<Longrightarrow> parsing m k'"
  by (simp add: parsing_def)

lemma parsing_mapM:
  "(\<And>y. parsing (f y) (k y)) \<Longrightarrow> parsing (mapM f ys) (\<lambda>x. \<Sum>y\<leftarrow>ys. k y x)"
proof (induction ys)
  case Nil
  then show ?case by (auto intro!: parsingI simp: return_def)
next
  case (Cons y ys)
  have "parsing (andThen (f y) (\<lambda>v. andThen (mapM f ys) (\<lambda>vs. return (v # vs))))
          (\<lambda>x. k y x + ((\<Sum>y\<leftarrow>ys. k y x) + 0))"
    by (intro parsing_andThen Cons.prems Cons.IH parsing_quiet quiet_return)
  then show ?case by (simp add: parsing_def)
qed

lemma parsing_forEach:
  "(\<And>y. parsing (f y) (k y)) \<Longrightarrow> parsing (forEach f ys) (\<lambda>x. \<Sum>y\<leftarrow>ys. k y x)"
proof (induction ys)
  case Nil
  then show ?case by (auto intro!: parsingI simp: return_def)
next
  case (Cons y ys)
  have "parsing (andThen (f y) (\<lambda>_. forEach f ys)) (\<lambda>x. k y x + (\<Sum>y\<leftarrow>ys. k y x))"
    by (intro parsing_andThen Cons.prems Cons.IH)
  then show ?case by (simp add: parsing_def)
qed

lemma parsing_getPageProperties:
  "parsing (getPageProperties P y) (\<lambda>x. if x = y then 1 else 0)"
proof -
  have "parsing (getPageProperties P y) (\<lambda>x. (if x = y then 1 else 0) + 0)"
    unfolding getPageProperties_def
    by (intro parsing_andThen parsing_emit parsing_quiet)
       (auto intro!: quiet_basic split: option.splits)
  then show ?thesis by (simp add: parsing_def)
qed

lemma parsing_getPageContentChildren:
  "parsing (getPageContentChildren P y) (\<lambda>x. if x = y then 1 else 0)"
proof -
  have "parsing (getPageContentChildren P y) (\<lambda>x. (if x = y then 1 else 0) + 0)"
    unfolding getPageContentChildren_def
    by (intro parsing_andThen parsing_emit parsing_quiet)
       (auto intro!: quiet_basic split: option.splits)
  then show ?thesis by (simp add: parsing_def)
qed

lemma parsing_getProcessedJcr:
  "parsing (getProcessedJcr P y pageUrl projectUrl) (\<lambda>x. if x = y then 1 else 0)"
proof -
  have "parsing (getProcessedJcr P y pageUrl projectUrl) (\<lambda>x. (if x = y then 1 else 0) + 0)"
    unfolding getProcessedJcr_def Let_def
    by (intro parsing_andThen parsing_emit parsing_quiet quiet_andThen quiet_mapM
          quiet_processImage quiet_return)
  then show ?thesis by (simp add: parsing_def)
qed

lemma parsing_resolvePage:
  "parsing (resolvePage P projectUrl p) (\<lambda>x. if x = page.data p then 3 else 0)"
proof -
  have "parsing (resolvePage P projectUrl p)
      (\<lambda>x. (if x = page.data p then 1 else 0) + ((if x = page.data p then 1 else 0)
          + ((if x = page.data p then 1 else 0) + 0)))"
    unfolding resolvePage_def
    by (intro parsing_andThen parsing_getPageProperties parsing_getPageContentChildren
          parsing_getProcessedJcr parsing_quiet quiet_andThen quiet_lift quiet_return)
  then show ?thesis by (simp add: parsing_def)
qed

lemma parsing_collectAssets:
  "parsing (collectAssets P projectUrl p) (\<lambda>x. if x = sourceXml p then 1 else 0)"
proof -
  have "parsing (collectAssets P projectUrl p) (\<lambda>x. (if x = sourceXml p then 1 else 0) + 0)"
    unfolding collectAssets_def
    by (intro parsing_andThen parsing_emit parsing_quiet quiet_forEach quiet_collectAsset)
  then show ?thesis by (simp add: parsing_def)
qed

lemma sum_list_if_filter:
  "(\<Sum>y\<leftarrow>ys. if x = g y then c else (0::nat)) = c * length (filter (\<lambda>y. g y = x) ys)"
  by (induction ys) auto

lemma assetsFunctionalI:
  "(\<And>s t. jcrAssets s = jcrAssets t \<Longrightarrow>
      fst (m s) = fst (m t) \<and> jcrAssets (snd (m s)) = jcrAssets (snd (m t)))
   \<Longrightarrow> assetsFunctional m"
  unfolding assetsFunctional_def by blast

lemma assetsFunctionalD:
  "assetsFunctional m \<Longrightarrow> jcrAssets s = jcrAssets t \<Longrightarrow>
   fst (m s) = fst (m t) \<and> jcrAssets (snd (m s)) = jcrAssets (snd (m t))"
  unfolding assetsFunctional_def by blast

lemma assetsFunctional_andThen:
  assumes "assetsFunctional m" and "\<And>a. assetsFunctional (f a)"
  shows "assetsFunctional (andThen m f)"
proof (rule assetsFunctionalI)
  fix s t :: state
  assume same: "jcrAssets s = jcrAssets t"
  obtain r s1 where ms: "m s = (r, s1)" by (cases "m s")
  obtain r' t1 where mt: "m t = (r', t1)" by (cases "m t")
  from assetsFunctionalD[OF assms(1) same] ms mt
  have r: "r' = r" and next1: "jcrAssets s1 = jcrAssets t1" by simp_all
  show "fst (andThen m f s) = fst (andThen m f t)
      \<and> jcrAssets (snd (andThen m f s)) = jcrAssets (snd (andThen m f t))"
  proof (cases r)
    case (Inl e)
    then show ?thesis using ms mt r next1 by (simp add: andThen_def)
  next
    case (Inr a)
    then show ?thesis
      using ms mt r assetsFunctionalD[OF assms(2) next1, of a] by (simp add: andThen_def)
  qed
qed

lemma assetsFunctional_emit: "assetsFunctional (emit ev)"
  by (rule assetsFunctionalI) (simp add: emit_def)

lemma assetsFunctional_return: "assetsFunctional (return a)"
  by (rule assetsFunctionalI) (simp add: return_def)

lemma assetsFunctional_forEach:
  "(\<And>y. assetsFunctional (f y)) \<Longrightarrow> assetsFunctional (forEach f ys)"
  by (induction ys) (auto intro!: assetsFunctional_andThen assetsFunctional_return)

lemma assetsFunctional_collectAsset: "assetsFunctional (collectAsset P projectUrl p img)"
proof (rule assetsFunctionalI)
  fix s t :: state
  assume same: "jcrAssets s = jcrAssets t"
  show "fst (collectAsset P projectUrl p img s) = fst (collectAsset P projectUrl p img t)
      \<and> jcrAssets (snd (collectAsset P projectUrl p img s))
          = jcrAssets (snd (collectAsset P projectUrl p img t))"
  proof (cases "getAsset P (getAttribute ''fileReference'' img) (jcr_page.url p) projectUrl")
    case (Inl e)
    then show ?thesis using same by (simp add: collectAsset_def andThen_def lift_def)
  next
    case (Inr found)
    then show ?thesis
      using same by (cases found) (simp_all add: collectAsset_def andThen_def lift_def)
  qed
qed

lemma assetsFunctional_collectAssets: "assetsFunctional (collectAssets P projectUrl p)"
  unfolding collectAssets_def
  by (intro assetsFunctional_andThen assetsFunctional_emit assetsFunctional_forEach
        assetsFunctional_collectAsset)

lemma resolvePage_sourceXml:
  assumes "resolvePage P projectUrl p s = (Inr q, s')"
  shows "sourceXml q = page.data p"
proof -
  from andThen_Inr[OF assms[unfolded resolvePage_def]]
  obtain props s1 where
    "andThen (getPageContentChildren P (data p)) (\<lambda>kids.
     andThen (getProcessedJcr P (data p) (page.url p) projectUrl) (\<lambda>processed.
     andThen (lift (getJcrPagePath P (page.path p) projectUrl)) (\<lambda>jcrPath'.
       return \<lparr>jcrPath = jcrPath',
               contentXmlPath = ''jcr_root'' @ jcrPath' @ ''/.content.xml'',
               processedXml = processed,
               path = page.path p,
               sourceXml = data p,
               pageProperties = props,
               pageContentChildren = kids,
               url = page.url p\<rparr>))) s1 = (Inr q, s')"
    by auto
  from andThen_Inr[OF this] obtain kids s2 where
    "andThen (getProcessedJcr P (data p) (page.url p) projectUrl) (\<lambda>processed.
     andThen (lift (getJcrPagePath P (page.path p) projectUrl)) (\<lambda>jcrPath'.
       return \<lparr>jcrPath = jcrPath',
               contentXmlPath = ''jcr_root'' @ jcrPath' @ ''/.content.xml'',
               processedXml = processed,
               path = page.path p,
               sourceXml = data p,
               pageProperties = props,
               pageContentChildren = kids,
               url = page.url p\<rparr>)) s2 = (Inr q, s')"
    by auto
  from andThen_Inr[OF this] obtain processed s3 where
    "andThen (lift (getJcrPagePath P (page.path p) projectUrl)) (\<lambda>jcrPath'.
       return \<lparr>jcrPath = jcrPath',
               contentXmlPath = ''jcr_root'' @ jcrPath' @ ''/.content.xml'',
               processedXml = processed,
               path = page.path p,
               sourceXml = data p,
               pageProperties = props,
               pageContentChildren = kids,
               url = page.url p\<rparr>) s3 = (Inr q, s')"
    by auto
  from andThen_Inr[OF this] show ?thesis
    by (auto simp: return_def)
qed

lemma mapM_resolvePage_sourceXml:
  "mapM (resolvePage P projectUrl) pages s = (Inr ps, s') \<Longrightarrow>
   map sourceXml ps = map page.data pages"
proof (induction pages arbitrary: s ps s')
  case Nil
  then show ?case by (simp add: return_def)
next
  case (Cons p pages)
  from andThen_Inr[OF Cons.prems[unfolded mapM.simps]]
  obtain q s1 where q: "resolvePage P projectUrl p s = (Inr q, s1)"
    and rest: "andThen (mapM (resolvePage P projectUrl) pages) (\<lambda>ys. return (q # ys)) s1
                 = (Inr ps, s')"
    by auto
  from andThen_Inr[OF rest]
  obtain qs s2 where qs: "mapM (resolvePage P projectUrl) pages s1 = (Inr qs, s2)"
    and ps: "ps = q # qs"
    by (auto simp: return_def)
  show ?case using Cons.IH[OF qs] resolvePage_sourceXml[OF q] ps by simp
qed

text \<open>The first call of \<open>getJcrPages\<close> in a build, and the later ones.\<close>

lemma getJcrPages_first:
  assumes "jcrPages s = Array []"
    and "getJcrPages P pages projectUrl s = (Inr ps, s')"
  shows "map sourceXml ps = map page.data pages
       \<and> jcrAssets s' = jcrAssets s
       \<and> parseCount x (trace s')
           = parseCount x (trace s) + 3 * length (filter (\<lambda>p. page.data p = x) pages)"
proof -
  obtain s1 where run: "mapM (resolvePage P projectUrl) pages s = (Inr ps, s1)"
    and s': "s' = s1\<lparr>jcrPages := Promise (Inr ps)\<rparr>"
    using assms by (auto simp: getJcrPages_def split: prod.splits)
  have "parsing (mapM (resolvePage P projectUrl) pages)
          (\<lambda>x. \<Sum>p\<leftarrow>pages. if x = page.data p then 3 else 0)"
    by (rule parsing_mapM) (rule parsing_resolvePage)
  from parsingD[OF this run, of x]
  have "parseCount x (trace s1)
          = parseCount x (trace s) + 3 * length (filter (\<lambda>p. page.data p = x) pages)"
    by (simp add: sum_list_if_filter)
  moreover have "keepsAssets (mapM (resolvePage P projectUrl) pages)"
    by (rule keepsAssets_mapM) (rule keepsAssets_resolvePage)
  from keepsAssetsD[OF this, of s] have "jcrAssets s1 = jcrAssets s"
    using run by simp
  ultimately show ?thesis
    using mapM_resolvePage_sourceXml[OF run] s' by simp
qed

lemma getJcrPages_cached:
  "jcrPages s = Array ps \<Longrightarrow> ps \<noteq> [] \<Longrightarrow> getJcrPages P pages projectUrl s = (Inr ps, s)"
  by (simp add: getJcrPages_def)

lemma setJcrPages_cached:
  "jcrPages s = Array ps \<Longrightarrow> setJcrPages ps s = (Inr (), s)"
  by (simp add: setJcrPages_def)

text \<open>The first call of \<open>getJcrAssets\<close> in a build, and the later ones.\<close>

lemma getJcrAssets_cached:
  "jcrAssets s \<noteq> [] \<Longrightarrow> getJcrAssets P pages projectUrl s = (Inr (jcrAssets s), s)"
  by (simp add: getJcrAssets_def)

lemma getJcrAssets_pass:
  assumes "jcrAssets s = []" and "jcrPages s = Array ps" and "ps \<noteq> []"
  shows "getJcrAssets P pages projectUrl s
           = andThen (forEach (collectAssets P projectUrl) ps)
               (\<lambda>_ s'. (Inr (jcrAssets s'), s')) s"
proof -
  have "getJcrAssets P pages projectUrl s
      = andThen (setJcrPages ps) (\<lambda>_.
          andThen (forEach (collectAssets P projectUrl) ps)
            (\<lambda>_ s'. (Inr (jcrAssets s'), s'))) s"
    using assms(1) getJcrPages_cached[OF assms(2,3), of P pages projectUrl]
    by (simp add: getJcrAssets_def andThen_def)
  also have "\<dots> = andThen (forEach (collectAssets P projectUrl) ps)
            (\<lambda>_ s'. (Inr (jcrAssets s'), s')) s"
    using setJcrPages_cached[OF assms(2)] by (simp add: andThen_def)
  finally show ?thesis .
qed

lemma getJcrAssets_first:
  assumes "jcrAssets s = []" and "jcrPages s = Array ps" and "ps \<noteq> []"
    and "getJcrAssets P pages projectUrl s = (Inr as, s')"
  shows "jcrPages s' = Array ps
       \<and> as = jcrAssets s'
       \<and> jcrAssets s' = jcrAssets (snd (forEach (collectAssets P projectUrl) ps s))
       \<and> parseCount x (trace s')
           = parseCount x (trace s) + length (filter (\<lambda>p. sourceXml p = x) ps)"
proof -
  from andThen_Inr[OF assms(4)[unfolded getJcrAssets_pass[OF assms(1-3)]]]
  obtain u where run: "forEach (collectAssets P projectUrl) ps s = (Inr u, s')"
    and as: "as = jcrAssets s'"
    by auto
  have "parsing (forEach (collectAssets P projectUrl) ps)
          (\<lambda>x. \<Sum>p\<leftarrow>ps. if x = sourceXml p then 1 else 0)"
    by (rule parsing_forEach) (rule parsing_collectAssets)
  from parsingD[OF this run, of x] show ?thesis
    using assms(2) as run by (simp add: sum_list_if_filter)
qed

lemma andThen_InrE:
  assumes "andThen m f s = (Inr b, s')"
  obtains a s1 where "m s = (Inr a, s1)" and "f a s1 = (Inr b, s')"
  using andThen_Inr[OF assms] by blast

lemma createJcrPackage_steps:
  assumes "createJcrPackage P d pages projectUrl s = (Inr (), s')" and "pages \<noteq> []"
  obtains name ps z1 z2 as z3 z4 z5 s2 s4 s5 s6 s7 s8 s9 where
    "getJcrPages P pages projectUrl (init s) = (Inr ps, s2)"
    and "foldM (\<lambda>p. addPage p d ''jcr'') ps [] (s2\<lparr>jcrPages := Array ps\<rparr>) = (Inr z1, s4)"
    and "foldM (\<lambda>p. addPage p d ''jcr'') (getEmptyAncestorPages ps) z1 s4 = (Inr z2, s5)"
    and "getJcrAssets P pages projectUrl s5 = (Inr as, s6)"
    and "addAssets P d ''jcr'' [] as z2 s6 = (Inr z3, s7)"
    and "addFilterXml P pages projectUrl d ''jcr'' z3 s7 = (Inr z4, s8)"
    and "addPropertiesXml P d ''jcr'' z4 pages name s8 = (Inr z5, s9)"
    and "emit (SaveArchive d (''jcr'' @ ''/'' @ js_template name @ ''.zip'') z5) s9 = (Inr (), s')"
proof -
  have chain: "andThen (lift (getPackageName P pages projectUrl)) (\<lambda>packageName.
         andThen (getJcrPages P pages projectUrl) (\<lambda>ps.
         andThen (setJcrPages ps) (\<lambda>_.
         andThen (foldM (\<lambda>p. addPage p d ''jcr'') ps []) (\<lambda>z1.
         andThen (foldM (\<lambda>p. addPage p d ''jcr'') (getEmptyAncestorPages ps) z1) (\<lambda>z2.
         andThen (getJcrAssets P pages projectUrl) (\<lambda>as.
         andThen (addAssets P d ''jcr'' [] as z2) (\<lambda>z3.
         andThen (addFilterXml P pages projectUrl d ''jcr'' z3) (\<lambda>z4.
         andThen (addPropertiesXml P d ''jcr'' z4 pages packageName) (\<lambda>z5.
           emit (SaveArchive d
             (''jcr'' @ ''/'' @ js_template packageName @ ''.zip'') z5)))))))))) (init s)
      = (Inr (), s')"
    using assms by (simp add: createJcrPackage_def Let_def)
  from chain obtain name s1 where
    n: "lift (getPackageName P pages projectUrl) (init s) = (Inr name, s1)"
    and c1: "andThen (getJcrPages P pages projectUrl) (\<lambda>ps.
         andThen (setJcrPages ps) (\<lambda>_.
         andThen (foldM (\<lambda>p. addPage p d ''jcr'') ps []) (\<lambda>z1.
         andThen (foldM (\<lambda>p. addPage p d ''jcr'') (getEmptyAncestorPages ps) z1) (\<lambda>z2.
         andThen (getJcrAssets P pages projectUrl) (\<lambda>as.
         andThen (addAssets P d ''jcr'' [] as z2) (\<lambda>z3.
         andThen (addFilterXml P pages projectUrl d ''jcr'' z3) (\<lambda>z4.
         andThen (addPropertiesXml P d ''jcr'' z4 pages name) (\<lambda>z5.
           emit (SaveArchive d
             (''jcr'' @ ''/'' @ js_template name @ ''.zip'') z5))))))))) s1 = (Inr (), s')"
    by (rule andThen_InrE)
  have s1: "s1 = init s" using n by (simp add: lift_def)
  from c1 obtain ps s2 where
    p: "getJcrPages P pages projectUrl s1 = (Inr ps, s2)"
    and c2: "andThen (setJcrPages ps) (\<lambda>_.
         andThen (foldM (\<lambda>p. addPage p d ''jcr'') ps []) (\<lambda>z1.
         andThen (foldM (\<lambda>p. addPage p d ''jcr'') (getEmptyAncestorPages ps) z1) (\<lambda>z2.
         andThen (getJcrAssets P pages projectUrl) (\<lambda>as.
         andThen (addAssets P d ''jcr'' [] as z2) (\<lambda>z3.
         andThen (addFilterXml P pages projectUrl d ''jcr'' z3) (\<lambda>z4.
         andThen (addPropertiesXml P d ''jcr'' z4 pages name) (\<lambda>z5.
           emit (SaveArchive d
             (''jcr'' @ ''/'' @ js_template name @ ''.zip'') z5)))))))) s2 = (Inr (), s')"
    by (rule andThen_InrE)
  from c2 obtain u s3 where
    sp: "setJcrPages ps s2 = (Inr u, s3)"
    and c3: "andThen (foldM (\<lambda>p. addPage p d ''jcr'') ps []) (\<lambda>z1.
         andThen (foldM (\<lambda>p. addPage p d ''jcr'') (getEmptyAncestorPages ps) z1) (\<lambda>z2.
         andThen (getJcrAssets P pages projectUrl) (\<lambda>as.
         andThen (addAssets P d ''jcr'' [] as z2) (\<lambda>z3.
         andThen (addFilterXml P pages projectUrl d ''jcr'' z3) (\<lambda>z4.
         andThen (addPropertiesXml P d ''jcr'' z4 pages name) (\<lambda>z5.
           emit (SaveArchive d
             (''jcr'' @ ''/'' @ js_template name @ ''.zip'') z5))))))) s3 = (Inr (), s')"
    by (rule andThen_InrE)
  have s3: "s3 = s2\<lparr>jcrPages := Array ps\<rparr>" using sp by (simp add: setJcrPages_def)
  from c3 obtain z1 s4 where
    a1: "foldM (\<lambda>p. addPage p d ''jcr'') ps [] s3 = (Inr z1, s4)"
    and c4: "andThen (foldM (\<lambda>p. addPage p d ''jcr'') (getEmptyAncestorPages ps) z1) (\<lambda>z2.
         andThen (getJcrAssets P pages projectUrl) (\<lambda>as.
         andThen (addAssets P d ''jcr'' [] as z2) (\<lambda>z3.
         andThen (addFilterXml P pages projectUrl d ''jcr'' z3) (\<lambda>z4.
         andThen (addPropertiesXml P d ''jcr'' z4 pages name) (\<lambda>z5.
           emit (SaveArchive d
             (''jcr'' @ ''/'' @ js_template name @ ''.zip'') z5)))))) s4 = (Inr (), s')"
    by (rule andThen_InrE)
  from c4 obtain z2 s5 where
    a2: "foldM (\<lambda>p. addPage p d ''jcr'') (getEmptyAncestorPages ps) z1 s4 = (Inr z2, s5)"
    and c5: "andThen (getJcrAssets P pages projectUrl) (\<lambda>as.
         andThen (addAssets P d ''jcr'' [] as z2) (\<lambda>z3.
         andThen (addFilterXml P pages projectUrl d ''jcr'' z3) (\<lambda>z4.
         andThen (addPropertiesXml P d ''jcr'' z4 pages name) (\<lambda>z5.
           emit (SaveArchive d
             (''jcr'' @ ''/'' @ js_template name @ ''.zip'') z5))))) s5 = (Inr (), s')"
    by (rule andThen_InrE)
  from c5 obtain as s6 where
    g: "getJcrAssets P pages projectUrl s5 = (Inr as, s6)"
    and c6: "andThen (addAssets P d ''jcr'' [] as z2) (\<lambda>z3.
         andThen (addFilterXml P pages projectUrl d ''jcr'' z3) (\<lambda>z4.
         andThen (addPropertiesXml P d ''jcr'' z4 pages name) (\<lambda>z5.
           emit (SaveArchive d
             (''jcr'' @ ''/'' @ js_template name @ ''.zip'') z5)))) s6 = (Inr (), s')"
    by (rule andThen_InrE)
  from c6 obtain z3 s7 where
    aa: "addAssets P d ''jcr'' [] as z2 s6 = (Inr z3, s7)"
    and c7: "andThen (addFilterXml P pages projectUrl d ''jcr'' z3) (\<lambda>z4.
         andThen (addPropertiesXml P d ''jcr'' z4 pages name) (\<lambda>z5.
           emit (SaveArchive d
             (''jcr'' @ ''/'' @ js_template name @ ''.zip'') z5))) s7 = (Inr (), s')"
    by (rule andThen_InrE)
  from c7 obtain z4 s8 where
    f: "addFilterXml P pages projectUrl d ''jcr'' z3 s7 = (Inr z4, s8)"
    and c8: "andThen (addPropertiesXml P d ''jcr'' z4 pages name) (\<lambda>z5.
           emit (SaveArchive d
             (''jcr'' @ ''/'' @ js_template name @ ''.zip'') z5)) s8 = (Inr (), s')"
    by (rule andThen_InrE)
  from c8 obtain z5 s9 where
    x: "addPropertiesXml P d ''jcr'' z4 pages name s8 = (Inr z5, s9)"
    and c9: "emit (SaveArchive d (''jcr'' @ ''/'' @ js_template name @ ''.zip'') z5) s9
               = (Inr (), s')"
    by (rule andThen_InrE)
  show ?thesis
    using that[OF p[unfolded s1] a1[unfolded s3] a2 g aa f x c9] .
qed

text \<open>What is fetched, and where.\<close>

lemma fetchlessI:
  "(\<And>s h. fetchCount h (trace (snd (m s))) = fetchCount h (trace s)) \<Longrightarrow> fetchless m"
  unfolding fetchless_def by blast

lemma fetchlessD:
  "fetchless m \<Longrightarrow> m s = (r, s') \<Longrightarrow> fetchCount h (trace s') = fetchCount h (trace s)"
  unfolding fetchless_def by (metis snd_conv)

lemma fetchless_andThen:
  assumes "fetchless m" and "\<And>a. fetchless (f a)"
  shows "fetchless (andThen m f)"
proof (rule fetchlessI)
  fix s h
  obtain r s1 where m: "m s = (r, s1)" by (cases "m s")
  note first = fetchlessD[OF assms(1) m, of h]
  show "fetchCount h (trace (snd (andThen m f s))) = fetchCount h (trace s)"
  proof (cases r)
    case (Inl e)
    then show ?thesis using m first by (simp add: andThen_def)
  next
    case (Inr a)
    obtain r2 s2 where f: "f a s1 = (r2, s2)" by (cases "f a s1")
    from fetchlessD[OF assms(2) f, of h] first show ?thesis
      using m Inr f by (simp add: andThen_def)
  qed
qed

lemma fetchless_return: "fetchless (return a)"
  by (rule fetchlessI) (simp add: return_def)

lemma fetchless_throw: "fetchless (throw e)"
  by (rule fetchlessI) (simp add: throw_def)

lemma fetchless_lift: "fetchless (lift r)"
  by (rule fetchlessI) (simp add: lift_def)

lemma fetchless_emit: "(\<And>h. ev \<noteq> Fetch h) \<Longrightarrow> fetchless (emit ev)"
  by (rule fetchlessI) (simp add: emit_def fetchCount_def)

lemma fetchless_saveFile: "fetchless (saveFile d p c)"
  by (simp add: saveFile_def fetchless_emit)

lemma fetchless_setJcrPages: "fetchless (setJcrPages ps)"
  by (rule fetchlessI) (simp add: setJcrPages_def)

lemmas fetchless_basic =
  fetchless_andThen fetchless_return fetchless_throw fetchless_lift fetchless_saveFile
  fetchless_setJcrPages

lemma fetchless_forEach: "(\<And>y. fetchless (f y)) \<Longrightarrow> fetchless (forEach f ys)"
  by (induction ys) (auto intro!: fetchless_basic)

lemma fetchless_foldM: "(\<And>y z. fetchless (f y z)) \<Longrightarrow> fetchless (foldM f ys z)"
  by (induction ys arbitrary: z) (auto intro!: fetchless_basic)

lemma fetchless_getPageProperties: "fetchless (getPageProperties P y)"
  unfolding getPageProperties_def
  by (auto intro!: fetchless_basic fetchless_emit split: option.splits)

lemma fetchless_getPageContentChildren: "fetchless (getPageContentChildren P y)"
  unfolding getPageContentChildren_def
  by (auto intro!: fetchless_basic fetchless_emit split: option.splits)

lemma fetchless_addPage: "fetchless (addPage p d pre z)"
  unfolding addPage_def by (intro fetchless_basic)

lemma fetchless_addPropertiesXml: "fetchless (addPropertiesXml P d pre z pages name)"
  unfolding addPropertiesXml_def
  by (auto intro!: fetchless_basic split: prod.splits)

lemma fetchless_collectAsset: "fetchless (collectAsset P projectUrl p img)"
proof (rule fetchlessI)
  fix s h
  show "fetchCount h (trace (snd (collectAsset P projectUrl p img s))) = fetchCount h (trace s)"
  proof (cases "getAsset P (getAttribute ''fileReference'' img) (jcr_page.url p) projectUrl")
    case (Inl e)
    then show ?thesis by (simp add: collectAsset_def andThen_def lift_def)
  next
    case (Inr found)
    then show ?thesis
      by (cases found) (simp_all add: collectAsset_def andThen_def lift_def)
  qed
qed

lemma fetchless_collectAssets: "fetchless (collectAssets P projectUrl p)"
  unfolding collectAssets_def
  by (intro fetchless_andThen fetchless_emit fetchless_forEach fetchless_collectAsset) simp

lemma fetchingI:
  "(\<And>s a s' h. m s = (Inr a, s') \<Longrightarrow>
      fetchCount h (trace s') = fetchCount h (trace s) + k h) \<Longrightarrow> fetching m k"
  unfolding fetching_def by blast

lemma fetchingD:
  "fetching m k \<Longrightarrow> m s = (Inr a, s') \<Longrightarrow>
   fetchCount h (trace s') = fetchCount h (trace s) + k h"
  unfolding fetching_def by blast

lemma fetching_fetchless: "fetchless m \<Longrightarrow> fetching m (\<lambda>_. 0)"
  by (rule fetchingI) (use fetchlessD in fastforce)

lemma fetching_andThen:
  assumes "fetching m k" and "\<And>a. fetching (f a) k'"
  shows "fetching (andThen m f) (\<lambda>h. k h + k' h)"
proof (rule fetchingI)
  fix s b s' h
  assume "andThen m f s = (Inr b, s')"
  from andThen_Inr[OF this]
  obtain a s1 where m: "m s = (Inr a, s1)" and f: "f a s1 = (Inr b, s')"
    by auto
  from fetchingD[OF assms(1) m, of h] fetchingD[OF assms(2) f, of h]
  show "fetchCount h (trace s') = fetchCount h (trace s) + (k h + k' h)"
    by simp
qed

lemma fetching_mapM:
  "(\<And>y. fetching (f y) (k y)) \<Longrightarrow> fetching (mapM f ys) (\<lambda>h. \<Sum>y\<leftarrow>ys. k y h)"
proof (induction ys)
  case Nil
  then show ?case by (auto intro!: fetchingI simp: return_def)
next
  case (Cons y ys)
  have "fetching (andThen (f y) (\<lambda>v. andThen (mapM f ys) (\<lambda>vs. return (v # vs))))
          (\<lambda>h. k y h + ((\<Sum>y\<leftarrow>ys. k y h) + 0))"
    by (intro fetching_andThen Cons.prems Cons.IH fetching_fetchless fetchless_return)
  then show ?case by (simp add: fetching_def)
qed

text \<open>What \<open>fetchAssetData\<close> fetches for an asset.\<close>

lemma fetching_fetchAssetData:
  "fetching (fetchAssetData P a)
     (\<lambda>h. if map_option href (asset.url a) = Some h then 1 else 0)"
proof (rule fetchingI)
  fix s a' s' h
  assume run: "fetchAssetData P a s = (Inr a', s')"
  show "fetchCount h (trace s')
      = fetchCount h (trace s) + (if map_option href (asset.url a) = Some h then 1 else 0)"
  proof (cases "asset.url a")
    case None
    then show ?thesis using run by (simp add: fetchAssetData_def return_def)
  next
    case (Some u)
    show ?thesis
    proof (cases "fetch P (href u)")
      case (Response res)
      then show ?thesis
        using run Some
        by (cases "ok res")
           (auto simp: fetchAssetData_def andThen_def emit_def return_def Let_def fetchCount_def)
    next
      case (Rejected err)
      then show ?thesis
        using run Some
        by (simp add: fetchAssetData_def andThen_def emit_def throw_def Let_def)
    qed
  qed
qed

lemma fetchAssetData_url:
  "fetchAssetData P a s = (Inr a', s') \<Longrightarrow> asset.url a' = asset.url a"
  by (auto simp: fetchAssetData_def andThen_def emit_def return_def throw_def Let_def
        split: option.splits fetched.splits if_splits)


lemma fetching_processImage:
  "fetching (processImage P pageUrl projectUrl img)
     (\<lambda>h. if fetchedFor P pageUrl projectUrl h img then 1 else 0)"
proof (rule fetchingI)
  fix s as s' h
  assume run: "processImage P pageUrl projectUrl img s = (Inr as, s')"
  show "fetchCount h (trace s')
      = fetchCount h (trace s) + (if fetchedFor P pageUrl projectUrl h img then 1 else 0)"
  proof (cases "getAttribute ''fileReference'' img")
    case None
    then show ?thesis
      using run
      by (simp add: processImage_def Let_def andThen_def lift_def getProcessedFileRef_def
            getAsset_def)
  next
    case (Some ref)
    show ?thesis
    proof (cases "getAsset P (Some ref) pageUrl projectUrl")
      case (Inl e)
      then show ?thesis
        using run Some
        by (simp add: processImage_def Let_def andThen_def lift_def getProcessedFileRef_def)
    next
      case (Inr found)
      show ?thesis
      proof (cases found)
        case None
        then show ?thesis
          using run Some Inr
          by (simp add: processImage_def Let_def andThen_def lift_def getProcessedFileRef_def)
      next
        case found: (Some a)
        show ?thesis
        proof (cases "prefix ''http'' ref \<and> \<not> add a")
          case False
          then consider "\<not> prefix ''http'' ref" | "prefix ''http'' ref" and "add a"
            by auto
          then show ?thesis
          proof cases
            case 1
            then show ?thesis
              using run Some Inr found
              by (auto simp: processImage_def Let_def andThen_def lift_def return_def
                    getProcessedFileRef_def fetchedFor_def)
          next
            case 2
            then show ?thesis
              using run Some Inr found
              by (auto simp: processImage_def Let_def andThen_def lift_def return_def
                    getProcessedFileRef_def fetchedFor_def)
          qed
        next
          case True
          obtain r s1 where fetched: "fetchAssetData P a s = (r, s1)"
            by (cases "fetchAssetData P a s")
          show ?thesis
          proof (cases r)
            case (Inl e)
            then show ?thesis
              using run Some Inr found True fetched
              by (simp add: processImage_def Let_def andThen_def lift_def
                    getProcessedFileRef_def)
          next
            case (Inr a')
            have "s' = s1"
              using run Some \<open>getAsset P (Some ref) pageUrl projectUrl = Inr found\<close> found
                True fetched Inr
              by (auto simp: processImage_def Let_def andThen_def lift_def return_def
                    getProcessedFileRef_def split: option.splits if_splits)
            then show ?thesis
              using fetchingD[OF fetching_fetchAssetData, of P a s a' s1 h] fetched Inr
                Some \<open>getAsset P (Some ref) pageUrl projectUrl = Inr found\<close> found True
              by (simp add: fetchedFor_def)
          qed
        qed
      qed
    qed
  qed
qed

lemma fetching_getProcessedJcr:
  "fetching (getProcessedJcr P y pageUrl projectUrl)
     (\<lambda>h. length (filter (fetchedFor P pageUrl projectUrl h)
                    (querySelectorAll_fileReference (parseFromString P y))))"
proof -
  have "fetching (getProcessedJcr P y pageUrl projectUrl)
     (\<lambda>h. 0 + ((\<Sum>img\<leftarrow>querySelectorAll_fileReference (parseFromString P y).
                  if fetchedFor P pageUrl projectUrl h img then 1 else 0) + 0))"
    unfolding getProcessedJcr_def Let_def
    by (intro fetching_andThen fetching_mapM fetching_processImage fetching_fetchless
          fetchless_emit fetchless_return) simp
  then show ?thesis by (simp add: fetching_def sum_list_indicator)
qed

lemma fetching_resolvePage:
  "fetching (resolvePage P projectUrl p) (externalFetches P projectUrl p)"
proof -
  have "fetching (resolvePage P projectUrl p)
      (\<lambda>h. 0 + (0 + (externalFetches P projectUrl p h + (0 + 0))))"
    unfolding resolvePage_def externalFetches_def
    by (intro fetching_andThen fetching_getProcessedJcr fetching_fetchless
          fetchless_getPageProperties fetchless_getPageContentChildren fetchless_lift
          fetchless_return)
  then show ?thesis by (simp add: fetching_def)
qed

lemma getJcrPages_first_fetches:
  assumes "jcrPages s = Array []"
    and "getJcrPages P pages projectUrl s = (Inr ps, s')"
  shows "fetchCount h (trace s')
           = fetchCount h (trace s) + (\<Sum>p\<leftarrow>pages. externalFetches P projectUrl p h)"
proof -
  obtain s1 where run: "mapM (resolvePage P projectUrl) pages s = (Inr ps, s1)"
    and s': "s' = s1\<lparr>jcrPages := Promise (Inr ps)\<rparr>"
    using assms by (auto simp: getJcrPages_def split: prod.splits)
  have "fetching (mapM (resolvePage P projectUrl) pages)
          (\<lambda>h. \<Sum>p\<leftarrow>pages. externalFetches P projectUrl p h)"
    by (rule fetching_mapM) (rule fetching_resolvePage)
  from fetchingD[OF this run, of h] show ?thesis using s' by simp
qed

lemma addAsset_fetches:
  assumes "addAsset P a d pre z s = (Inr (a', z'), s')"
  shows "asset.url a' = asset.url a
       \<and> fetchCount h (trace s')
           = fetchCount h (trace s) + (if map_option href (asset.url a) = Some h then 1 else 0)"
proof -
  from andThen_Inr[OF assms[unfolded addAsset_def]]
  obtain b s1 where fetched: "fetchAssetData P a s = (Inr b, s1)"
    and rest: "(let zipAssetPath = ''jcr_root'' @ js_template (asset.jcrPath b) @ ''/.content.xml'';
           fileAssetPath = pre @ ''/'' @ zipAssetPath;
           assetXml = getAssetXml (mimeType b);
           zipAssetOriginalPath = ''jcr_root'' @ js_template (asset.jcrPath b)
             @ ''/_jcr_content/renditions/original'';
           fileAssetOriginalPath = pre @ ''/'' @ zipAssetOriginalPath
       in andThen (saveFile d fileAssetPath (Text assetXml)) (\<lambda>_.
          andThen (saveFile d fileAssetOriginalPath (Binary (blob b))) (\<lambda>_.
            return (b,
              zip_file zipAssetOriginalPath (Binary (blob b))
                (zip_file zipAssetPath (Text assetXml) z))))) s1 = (Inr (a', z'), s')"
    by auto
  have b: "a' = b" and same: "fetchCount h (trace s') = fetchCount h (trace s1)"
    using rest by (auto simp: Let_def andThen_def saveFile_def emit_def return_def fetchCount_def)
  show ?thesis
    using fetchingD[OF fetching_fetchAssetData fetched, of h] fetchAssetData_url[OF fetched] b same
    by simp
qed

lemma addAssets_fetches:
  assumes "addAssets P d pre done todo z s = (Inr z', s')"
    and "map asset.url (jcrAssets s) = map asset.url (done @ todo)"
  shows "map asset.url (jcrAssets s') = map asset.url (done @ todo)
       \<and> fetchCount h (trace s')
           = fetchCount h (trace s)
             + length (filter (\<lambda>a. map_option href (asset.url a) = Some h) todo)"
  using assms
proof (induction todo arbitrary: "done" z s)
  case Nil
  then show ?case by (simp add: return_def)
next
  case (Cons a todo)
  from andThen_Inr[OF Cons.prems(1)[unfolded addAssets.simps]]
  obtain result s1 where first: "addAsset P a d pre z s = (Inr result, s1)"
    and rest: "(case result of (fetched', z') \<Rightarrow> \<lambda>s.
         addAssets P d pre (done @ [fetched']) todo z'
           (s\<lparr>jcrAssets := done @ [fetched'] @ todo\<rparr>)) s1 = (Inr z', s')"
    by auto
  obtain a' z1 where result: "result = (a', z1)" by (cases result)
  let ?s2 = "s1\<lparr>jcrAssets := done @ [a'] @ todo\<rparr>"
  have rest': "addAssets P d pre (done @ [a']) todo z1 ?s2 = (Inr z', s')"
    using rest result by simp
  note one = addAsset_fetches[OF first[unfolded result], of h]
  have "map asset.url (jcrAssets ?s2) = map asset.url ((done @ [a']) @ todo)"
    by simp
  from Cons.IH[OF rest' this] one show ?case by simp
qed

lemma addFilterXml_assets:
  assumes "jcrPages s = Array ps" and "ps \<noteq> []"
    and "addFilterXml P pages projectUrl d pre z s = (Inr z', s')"
  shows "\<exists>as t. getJcrAssets P pages projectUrl s = (Inr as, t)
           \<and> jcrPages s' = jcrPages t \<and> jcrAssets s' = jcrAssets t
           \<and> parseCount x (trace s') = parseCount x (trace t)
           \<and> fetchCount h (trace s') = fetchCount h (trace t)"
proof -
  from assms(3)[unfolded addFilterXml_def] obtain result s1 where
    fx: "getFilterXml P pages projectUrl s = (Inr result, s1)"
    and rest: "(case result of (filterXmlPath, filterXml') \<Rightarrow>
        andThen (saveFile d (pre @ ''/'' @ filterXmlPath) (Text filterXml')) (\<lambda>_.
          return (zip_file filterXmlPath (Text filterXml') z))) s1 = (Inr z', s')"
    by (rule andThen_InrE)
  obtain fp fxml where result: "result = (fp, fxml)" by (cases result)
  have saved: "andThen (saveFile d (pre @ ''/'' @ fp) (Text fxml)) (\<lambda>_.
          return (zip_file fp (Text fxml) z)) s1 = (Inr z', s')"
    using rest result by simp
  have q: "quiet (andThen (saveFile d (pre @ ''/'' @ fp) (Text fxml)) (\<lambda>_.
          return (zip_file fp (Text fxml) z)))"
    by (intro quiet_basic)
  have k: "keepsAssets (andThen (saveFile d (pre @ ''/'' @ fp) (Text fxml)) (\<lambda>_.
          return (zip_file fp (Text fxml) z)))"
    by (intro keepsAssets_basic)
  have fl: "fetchless (andThen (saveFile d (pre @ ''/'' @ fp) (Text fxml)) (\<lambda>_.
          return (zip_file fp (Text fxml) z)))"
    by (intro fetchless_basic)
  have after: "jcrPages s' = jcrPages s1 \<and> jcrAssets s' = jcrAssets s1
      \<and> parseCount x (trace s') = parseCount x (trace s1)
      \<and> fetchCount h (trace s') = fetchCount h (trace s1)"
    using quietD[OF q saved, of x] keepsAssetsD[OF k, of s1] fetchlessD[OF fl saved, of h] saved
    by simp
  from fx[unfolded getFilterXml_def] obtain ps' t1 where
    "getJcrPages P pages projectUrl s = (Inr ps', t1)"
    and c1: "andThen (setJcrPages ps') (\<lambda>_.
       andThen (getJcrAssetPaths P pages projectUrl) (\<lambda>jcrAssetPaths.
         return (''META-INF/vault/filter.xml'', filterXml ps' jcrAssetPaths))) t1
       = (Inr result, s1)"
    by (rule andThen_InrE)
  then have ps': "ps' = ps" and t1: "t1 = s"
    using getJcrPages_cached[OF assms(1,2), of P pages projectUrl] by simp_all
  from c1 obtain u t2 where "setJcrPages ps' t1 = (Inr u, t2)"
    and c2: "andThen (getJcrAssetPaths P pages projectUrl) (\<lambda>jcrAssetPaths.
         return (''META-INF/vault/filter.xml'', filterXml ps' jcrAssetPaths)) t2
       = (Inr result, s1)"
    by (rule andThen_InrE)
  then have t2: "t2 = s"
    using setJcrPages_cached[OF assms(1)] ps' t1 by simp
  from c2 obtain paths t3 where
    gp: "getJcrAssetPaths P pages projectUrl t2 = (Inr paths, t3)"
    and c3: "return (''META-INF/vault/filter.xml'', filterXml ps' paths) t3 = (Inr result, s1)"
    by (rule andThen_InrE)
  have t3: "t3 = s1" using c3 by (simp add: return_def)
  from gp[unfolded getJcrAssetPaths_def] obtain as t4 where
    ga: "getJcrAssets P pages projectUrl t2 = (Inr as, t4)"
    and "return (assetPaths as) t4 = (Inr paths, t3)"
    by (rule andThen_InrE)
  then have "t4 = s1" using t3 by (simp add: return_def)
  then show ?thesis using ga t2 after by auto
qed

lemma init_cache:
  "jcrPages (init s) = Array [] \<and> jcrAssets (init s) = [] \<and> trace (init s) = trace s
   \<and> init (init s) = init s"
  by (simp add: init_def)

lemma filter_sourceXml:
  "map sourceXml ps = map page.data pages \<Longrightarrow>
   length (filter (\<lambda>p. sourceXml p = x) ps) = length (filter (\<lambda>p. page.data p = x) pages)"
proof -
  assume same: "map sourceXml ps = map page.data pages"
  have "length (filter (\<lambda>p. sourceXml p = x) ps) = length (filter (\<lambda>y. y = x) (map sourceXml ps))"
    by (simp add: filter_map comp_def)
  also have "\<dots> = length (filter (\<lambda>y. y = x) (map page.data pages))"
    by (simp only: same)
  also have "\<dots> = length (filter (\<lambda>p. page.data p = x) pages)"
    by (simp add: filter_map comp_def)
  finally show ?thesis .
qed

text \<open>
  Claim C4, as amended. In a build of at least one page that ends and leaves an asset
  in the collection: the build is the same from the cache emptied, whatever the cache
  held; the page cache ends with one resolved page for each input page, in order;
  every string has been parsed four times for each input page whose markup it is,
  three times in the one pass that resolves the pages (properties, children,
  references) and once in the one pass that collects the assets; and every URL has
  been fetched once for each asset of the collection at that URL, and once for each
  element of an input page that refers to it on another server. Nothing in the build
  runs either pass again.
\<close>

theorem C4_cache_once:
  assumes run: "createJcrPackage P dirHandle pages projectUrl s = (Inr (), s')"
    and pages: "pages \<noteq> []"
    and included: "jcrAssets s' \<noteq> []"
  shows "createJcrPackage P dirHandle pages projectUrl (init s) = (Inr (), s')
       \<and> map sourceXml (cachedPages s') = map page.data pages
       \<and> parseCount x (trace s')
           = parseCount x (trace s) + 4 * length (filter (\<lambda>p. page.data p = x) pages)
       \<and> fetchCount h (trace s')
           = fetchCount h (trace s) + (\<Sum>p\<leftarrow>pages. externalFetches P projectUrl p h)
             + length (filter (\<lambda>a. map_option href (asset.url a) = Some h) (jcrAssets s'))"
proof -
  let ?n = "length (filter (\<lambda>p. page.data p = x) pages)"
  from run pages
  obtain name ps z1 z2 as z3 z4 z5 s2 s4 s5 s6 s7 s8 s9 where
    p: "getJcrPages P pages projectUrl (init s) = (Inr ps, s2)"
    and a1: "foldM (\<lambda>p. addPage p dirHandle ''jcr'') ps [] (s2\<lparr>jcrPages := Array ps\<rparr>) = (Inr z1, s4)"
    and a2: "foldM (\<lambda>p. addPage p dirHandle ''jcr'') (getEmptyAncestorPages ps) z1 s4 = (Inr z2, s5)"
    and g: "getJcrAssets P pages projectUrl s5 = (Inr as, s6)"
    and aa: "addAssets P dirHandle ''jcr'' [] as z2 s6 = (Inr z3, s7)"
    and f: "addFilterXml P pages projectUrl dirHandle ''jcr'' z3 s7 = (Inr z4, s8)"
    and px: "addPropertiesXml P dirHandle ''jcr'' z4 pages name s8 = (Inr z5, s9)"
    and ar: "emit (SaveArchive dirHandle (''jcr'' @ ''/'' @ js_template name @ ''.zip'') z5) s9
               = (Inr (), s')"
    by (rule createJcrPackage_steps)
  note first = getJcrPages_first[OF _ p, of x]
  have src: "map sourceXml ps = map page.data pages"
    and A2: "jcrAssets s2 = []"
    and c2: "parseCount x (trace s2) = parseCount x (trace s) + 3 * ?n"
    using first init_cache[of s] by simp_all
  have ps: "ps \<noteq> []" using src pages by auto
  have qp: "\<And>qs z. quiet (foldM (\<lambda>p. addPage p dirHandle ''jcr'') qs z)"
    "\<And>qs z. keepsAssets (foldM (\<lambda>p. addPage p dirHandle ''jcr'') (qs::'a page_node_scheme list) z)"
    by (rule quiet_foldM, rule quiet_addPage) (rule keepsAssets_foldM, rule keepsAssets_addPage)
  have s4: "jcrPages s4 = Array ps" "jcrAssets s4 = []" "parseCount x (trace s4) = parseCount x (trace s2)"
    using quietD[OF qp(1) a1, of x] keepsAssetsD[OF qp(2), of ps "[]" "s2\<lparr>jcrPages := Array ps\<rparr>"] a1 A2
    by simp_all
  have s5: "jcrPages s5 = Array ps" "jcrAssets s5 = []" "parseCount x (trace s5) = parseCount x (trace s2)"
    using quietD[OF qp(1) a2, of x] keepsAssetsD[OF qp(2), of "getEmptyAncestorPages ps" z1 s4] a2 s4
    by simp_all
  note pass = getJcrAssets_first[OF s5(2) s5(1) ps g, of x]
  have s6: "jcrPages s6 = Array ps" "as = jcrAssets s6"
    "jcrAssets s6 = jcrAssets (snd (forEach (collectAssets P projectUrl) ps s5))"
    "parseCount x (trace s6) = parseCount x (trace s2) + ?n"
    using pass s5(3) filter_sourceXml[OF src, of x] by simp_all
  have s7: "jcrPages s7 = Array ps" "parseCount x (trace s7) = parseCount x (trace s6)"
    using quietD[OF quiet_addAssets aa, of x] s6(1) by simp_all
  have paths7: "map asset.jcrPath (jcrAssets s7) = map asset.jcrPath as"
    using addAssets_paths[of s6 "[]" as P dirHandle "''jcr''" z2] s6(2) aa by simp
  from addFilterXml_assets[OF s7(1) ps f, of x h]
  obtain as' t where again: "getJcrAssets P pages projectUrl s7 = (Inr as', t)"
    and s8: "jcrPages s8 = jcrPages t" "jcrAssets s8 = jcrAssets t"
      "parseCount x (trace s8) = parseCount x (trace t)"
      "fetchCount h (trace s8) = fetchCount h (trace t)"
    by blast
  have tail: "jcrPages s' = jcrPages s8" "jcrAssets s' = jcrAssets s8"
    "parseCount x (trace s') = parseCount x (trace s8)"
  proof -
    have q9: "jcrPages s9 = jcrPages s8 \<and> parseCount x (trace s9) = parseCount x (trace s8)"
      using quietD[OF quiet_addPropertiesXml px] by blast
    have k9: "jcrAssets s9 = jcrAssets s8"
      using keepsAssetsD[OF keepsAssets_addPropertiesXml, of P dirHandle "''jcr''" z4 pages name s8] px
      by simp
    have last: "jcrPages s' = jcrPages s9 \<and> jcrAssets s' = jcrAssets s9
        \<and> parseCount x (trace s') = parseCount x (trace s9)"
      using ar by (auto simp: emit_def parseCount_def)
    show "jcrPages s' = jcrPages s8" "jcrAssets s' = jcrAssets s8"
      "parseCount x (trace s') = parseCount x (trace s8)"
      using q9 k9 last by simp_all
  qed
  have kept: "jcrAssets s7 \<noteq> []"
  proof
    assume empty: "jcrAssets s7 = []"
    then have "as = []" using paths7 by simp
    then have none: "jcrAssets (snd (forEach (collectAssets P projectUrl) ps s5)) = []"
      using s6(2,3) by simp
    have "assetsFunctional (forEach (collectAssets P projectUrl) ps)"
      by (rule assetsFunctional_forEach) (rule assetsFunctional_collectAssets)
    from assetsFunctionalD[OF this, of s7 s5]
    have "jcrAssets (snd (forEach (collectAssets P projectUrl) ps s7)) = []"
      using empty s5(2) none by simp
    then have "jcrAssets t = []"
      using getJcrAssets_first[OF empty s7(1) ps again] by simp
    then show False using included tail(2) s8(2) by simp
  qed
  have t: "t = s7"
    using getJcrAssets_cached[OF kept, of P pages projectUrl] again by simp
  have count: "parseCount x (trace s') = parseCount x (trace s) + 4 * ?n"
    using tail(3) s8(3) t s7(2) s6(4) c2 by simp
  have cache: "cachedPages s' = ps"
    using tail(1) s8(1) t s7(1) by (simp add: cachedPages_def)
  have reset: "createJcrPackage P dirHandle pages projectUrl (init s)
      = createJcrPackage P dirHandle pages projectUrl s"
    using pages init_cache[of s] by (simp add: createJcrPackage_def)
  have f2: "fetchCount h (trace s2)
      = fetchCount h (trace s) + (\<Sum>p\<leftarrow>pages. externalFetches P projectUrl p h)"
    using getJcrPages_first_fetches[OF _ p, of h] init_cache[of s] by simp
  have fp: "\<And>qs z. fetchless (foldM (\<lambda>p. addPage p dirHandle ''jcr'') qs z)"
    by (rule fetchless_foldM) (rule fetchless_addPage)
  have f4: "fetchCount h (trace s4) = fetchCount h (trace s2)"
    using fetchlessD[OF fp a1, of h] by simp
  have f5: "fetchCount h (trace s5) = fetchCount h (trace s4)"
    using fetchlessD[OF fp a2, of h] by simp
  have "fetchless (andThen (forEach (collectAssets P projectUrl) ps)
          (\<lambda>_ s'. (Inr (jcrAssets s'), s')))"
    by (intro fetchless_andThen fetchless_forEach fetchless_collectAssets)
       (simp add: fetchless_def)
  from fetchlessD[OF this g[unfolded getJcrAssets_pass[OF s5(2) s5(1) ps]], of h]
  have f6: "fetchCount h (trace s6) = fetchCount h (trace s5)" .
  have urls6: "map asset.url (jcrAssets s6) = map asset.url ([] @ as)"
    using s6(2) by simp
  from addAssets_fetches[OF aa urls6, of h]
  have urls7: "map asset.url (jcrAssets s7) = map asset.url as"
    and f7: "fetchCount h (trace s7) = fetchCount h (trace s6)
        + length (filter (\<lambda>a. map_option href (asset.url a) = Some h) as)"
    by simp_all
  have f9: "fetchCount h (trace s9) = fetchCount h (trace s8)"
    using fetchlessD[OF fetchless_addPropertiesXml px, of h] .
  have f': "fetchCount h (trace s') = fetchCount h (trace s9)"
    using ar by (auto simp: emit_def fetchCount_def)
  have "length (filter (\<lambda>a. map_option href (asset.url a) = Some h) (jcrAssets s7))
      = length (filter (\<lambda>u. map_option href u = Some h) (map asset.url (jcrAssets s7)))"
    by (simp add: filter_map comp_def)
  also have "\<dots> = length (filter (\<lambda>u. map_option href u = Some h) (map asset.url as))"
    by (simp only: urls7)
  also have "\<dots> = length (filter (\<lambda>a. map_option href (asset.url a) = Some h) as)"
    by (simp add: filter_map comp_def)
  finally have fetchedAssets:
    "length (filter (\<lambda>a. map_option href (asset.url a) = Some h) (jcrAssets s'))
       = length (filter (\<lambda>a. map_option href (asset.url a) = Some h) as)"
    using tail(2) s8(2) t by simp
  have fetches: "fetchCount h (trace s')
      = fetchCount h (trace s) + (\<Sum>p\<leftarrow>pages. externalFetches P projectUrl p h)
        + length (filter (\<lambda>a. map_option href (asset.url a) = Some h) (jcrAssets s'))"
    using f' f9 s8(4) t f7 f6 f5 f4 f2 fetchedAssets by simp
  show ?thesis using run reset cache src count fetches by simp
qed

theorem C4_cache_once_witness:
  "fst (createJcrPackage (examplePlatform goodResponse) ''dir'' [examplePage] exampleProject
          emptyState) = Inr ()
   \<and> [examplePage] \<noteq> []
   \<and> jcrAssets (snd (createJcrPackage (examplePlatform goodResponse) ''dir'' [examplePage]
          exampleProject emptyState)) \<noteq> []
   \<and> map sourceXml (cachedPages (snd (createJcrPackage (examplePlatform goodResponse) ''dir''
          [examplePage] exampleProject emptyState))) = [''<xml/>'']
   \<and> parseCount ''<xml/>'' (trace (snd (createJcrPackage (examplePlatform goodResponse) ''dir''
          [examplePage] exampleProject emptyState))) = 4
   \<and> fetchCount ''https://host/media/a.png'' (trace (snd (createJcrPackage
          (examplePlatform goodResponse) ''dir'' [examplePage] exampleProject emptyState))) = 1"
proof -
  let ?R = "createJcrPackage (examplePlatform goodResponse) ''dir'' [examplePage] exampleProject
          emptyState"
  have build: "map_prod id
      (\<lambda>s. (jcrAssets s \<noteq> [],
            length (filter
              (\<lambda>a. map_option href (asset.url a) = Some ''https://host/media/a.png'')
              (jcrAssets s))))
      ?R = (Inr (), True, 1)"
    by code_simp
  have ok: "fst ?R = Inr ()"
    using arg_cong[OF build, of fst] by simp
  have run: "?R = (Inr (), snd ?R)" using ok by (simp add: prod_eq_iff)
  have pages: "[examplePage] \<noteq> []" by simp
  have included: "jcrAssets (snd ?R) \<noteq> []"
    using arg_cong[OF build, of "fst \<circ> snd"] by simp
  have external: "externalFetches (examplePlatform goodResponse) exampleProject examplePage
      ''https://host/media/a.png'' = 0"
    by code_simp
  have collected: "length (filter
      (\<lambda>a. map_option href (asset.url a) = Some ''https://host/media/a.png'')
      (jcrAssets (snd ?R))) = 1"
    using arg_cong[OF build, of "snd \<circ> snd"] by simp
  show ?thesis
    using C4_cache_once[OF run pages included, of "''<xml/>''" "''https://host/media/a.png''"]
      ok included external collected
    by (simp add: examplePage_def emptyState_def parseCount_def fetchCount_def)
qed

text \<open>
  Claim C4 as stated fails. In the build of the example page, which ends and includes
  its asset, the markup of the page is parsed four times, not once. In the build of
  the second page, which ends too, the picture that two of its elements refer to is
  fetched twice.
\<close>

theorem C4_cache_once_counterexample:
  "map_prod id (parseCount (page.data examplePage) \<circ> trace)
       (createJcrPackage (examplePlatform goodResponse) ''dir'' [examplePage] exampleProject
          emptyState)
     = (Inr (), 4)
   \<and> map_prod id (fetchCount ''https://cdn.example/x.png'' \<circ> trace)
       (createJcrPackage (examplePlatform goodResponse) ''dir'' [externalPage] exampleProject
          emptyState)
     = (Inr (), 2)"
  by code_simp

end
